theory Spec2Isabelle
  imports Complex_Main "HOL-Library.Word"
begin

section \<open>JavaScript values\<close>

text \<open>
  A JavaScript \<open>number\<close> is an IEEE-754 double. Every finite double is a rational, so
  a number is modelled by its value: a rational, one of the two infinities, or NaN
  (the two zeros are identified). The result of an arithmetic operation on doubles is
  the exact result rounded to a double; the rounding is a parameter of every definition
  that multiplies or adds (\<open>rounding\<close>), and no theorem below depends on what it returns.
\<close>

datatype number = NaN | NInf | Fin rat | PInf

type_synonym rounding = "rat \<Rightarrow> number"

text \<open>\<open>a < b\<close> on numbers: false as soon as one side is NaN.\<close>

fun num_lt :: "number \<Rightarrow> number \<Rightarrow> bool" where
  "num_lt NaN _ = False"
| "num_lt _ NaN = False"
| "num_lt _ NInf = False"
| "num_lt NInf _ = True"
| "num_lt PInf _ = False"
| "num_lt (Fin a) (Fin b) = (a < b)"
| "num_lt (Fin a) PInf = True"

text \<open>\<open>a <= b\<close> on numbers (used in statements only; the program never evaluates it).\<close>

definition num_le :: "number \<Rightarrow> number \<Rightarrow> bool" where
  "num_le a b = (a \<noteq> NaN \<and> b \<noteq> NaN \<and> \<not> num_lt b a)"

text \<open>\<open>a !== b\<close> on numbers: NaN is different from everything, itself included.\<close>

definition strict_neq :: "number \<Rightarrow> number \<Rightarrow> bool" where
  "strict_neq a b = (a = NaN \<or> b = NaN \<or> a \<noteq> b)"

definition Math_min :: "number \<Rightarrow> number \<Rightarrow> number" where
  "Math_min a b = (if a = NaN \<or> b = NaN then NaN else if num_lt b a then b else a)"

definition Math_max :: "number \<Rightarrow> number \<Rightarrow> number" where
  "Math_max a b = (if a = NaN \<or> b = NaN then NaN else if num_lt a b then b else a)"

fun Math_floor :: "number \<Rightarrow> number" where
  "Math_floor (Fin q) = Fin (of_int \<lfloor>q\<rfloor>)"
| "Math_floor x = x"

fun num_sign :: "number \<Rightarrow> int" where
  "num_sign (Fin q) = (if q < 0 then - 1 else if q = 0 then 0 else 1)"
| "num_sign NInf = - 1"
| "num_sign PInf = 1"
| "num_sign NaN = 0"

text \<open>\<open>a * b\<close>: the rounded product of two finite numbers; an infinity times zero is NaN.\<close>

fun num_mul :: "rounding \<Rightarrow> number \<Rightarrow> number \<Rightarrow> number" where
  "num_mul rd NaN _ = NaN"
| "num_mul rd _ NaN = NaN"
| "num_mul rd (Fin a) (Fin b) = rd (a * b)"
| "num_mul rd a b =
     (if num_sign a * num_sign b = 0 then NaN
      else if num_sign a * num_sign b < 0 then NInf else PInf)"

text \<open>\<open>a + b\<close>: the rounded sum of two finite numbers; opposite infinities add to NaN.\<close>

fun num_add :: "rounding \<Rightarrow> number \<Rightarrow> number \<Rightarrow> number" where
  "num_add rd NaN _ = NaN"
| "num_add rd _ NaN = NaN"
| "num_add rd (Fin a) (Fin b) = rd (a + b)"
| "num_add rd (Fin a) b = b"
| "num_add rd a (Fin b) = a"
| "num_add rd a b = (if a = b then a else NaN)"

text \<open>
  The values that are thrown, passed to \<open>reject\<close> or given as an abort reason:
  \<open>undefined\<close>, a number, an object (known by its identity), the \<open>RangeError\<close> with code
  \<open>ERR_OUT_OF_RANGE\<close> of the Buffer methods, and the \<open>AbortError\<close> that an
  \<open>AbortSignal\<close> takes as its reason when it is aborted without one.
\<close>

datatype jsval = Undefined | Num number | Ref nat | ERR_OUT_OF_RANGE | AbortError

text \<open>\<open>a !== b\<close> on values.\<close>

fun val_strict_neq :: "jsval \<Rightarrow> jsval \<Rightarrow> bool" where
  "val_strict_neq (Num a) (Num b) = strict_neq a b"
| "val_strict_neq a b = (a \<noteq> b)"

section \<open>Buffers of 16-bit samples\<close>

type_synonym buffer = "8 word list"

text \<open>Rounding towards zero, the first step of the conversion of a number to an integer.\<close>

definition trunc :: "rat \<Rightarrow> int" where
  "trunc q = (if q < 0 then \<lceil>q\<rceil> else \<lfloor>q\<rfloor>)"

text \<open>What a store into a byte array keeps of a number: its integer part modulo 256.\<close>

fun ToUint8 :: "number \<Rightarrow> 8 word" where
  "ToUint8 (Fin q) = word_of_int (trunc q)"
| "ToUint8 _ = 0"

text \<open>The operand conversion of \<open>>>>\<close>: the integer part modulo \<open>2^32\<close>.\<close>

fun ToUint32 :: "number \<Rightarrow> int" where
  "ToUint32 (Fin q) = trunc q mod 2 ^ 32"
| "ToUint32 _ = 0"

text \<open>
  \<open>buf.readInt16LE(offset)\<close>: both bytes must exist; the value is
  \<open>first + last * 2^8\<close>, read as two's complement.
\<close>

definition readInt16LE :: "buffer \<Rightarrow> nat \<Rightarrow> jsval + int" where
  "readInt16LE buf offset =
     (if offset + 1 < length buf then
        (let val = uint (buf ! offset) + uint (buf ! (offset + 1)) * 2 ^ 8
         in Inr (if 32768 \<le> val then val - 65536 else val))
      else Inl ERR_OUT_OF_RANGE)"

text \<open>
  \<open>buf.writeInt16LE(value, offset)\<close>: throws when \<open>value > 0x7fff || value < -0x8000\<close>
  (both comparisons are false for NaN) or when the two bytes are not inside the buffer;
  otherwise \<open>buf[offset] = value; buf[offset + 1] = value >>> 8\<close>.
\<close>

definition writeInt16LE :: "buffer \<Rightarrow> number \<Rightarrow> nat \<Rightarrow> jsval + buffer" where
  "writeInt16LE buf v offset =
     (if num_lt (Fin 32767) v \<or> num_lt v (Fin (- 32768)) then Inl ERR_OUT_OF_RANGE
      else if \<not> offset + 1 < length buf then Inl ERR_OUT_OF_RANGE
      else Inr (buf[offset := ToUint8 v,
                    offset + 1 := word_of_int (ToUint32 v div 2 ^ 8)]))"

section \<open>AudioStream\<close>

text \<open>
  The Opus codec and the UDP transport are outside the program. Each call is given by a
  function of the callee's state that returns the outcome (\<open>Inl\<close> a thrown value) and the
  callee's next state. \<open>round_double\<close> is the rounding of double arithmetic.
\<close>

record ('c, 'u) platform =
  round_double :: rounding
  opus_decode :: "'c \<Rightarrow> buffer \<Rightarrow> (jsval + buffer) \<times> 'c"
  opus_encode :: "'c \<Rightarrow> buffer \<Rightarrow> nat \<Rightarrow> (jsval + buffer) \<times> 'c"
  udp_sendAudioFrame :: "'u \<Rightarrow> buffer \<Rightarrow> number \<Rightarrow> (jsval + unit) \<times> 'u"

text \<open>The calls a \<open>_sendFrame\<close> makes to the outside, in order.\<close>

datatype call =
    Decode buffer
  | Encode buffer nat
  | ConsoleError jsval
  | SendAudioFrame buffer number

text \<open>
  The fields of the class (\<open>_isMuted\<close>, \<open>_volume\<close>, \<open>_opusEncoder\<close>, \<open>udp\<close>); an
  identifier cannot start with an underscore here, so the private ones are prefixed
  \<open>m_\<close>.
\<close>

record ('c, 'u) AudioStream =
  udp :: 'u
  m_isMuted :: bool
  m_volume :: number
  m_opusEncoder :: 'c

text \<open>The constructor: \<open>_volume\<close> starts at 1.0, \<open>_isMuted\<close> at \<open>initialMuted\<close>.\<close>

definition new_AudioStream :: "'u \<Rightarrow> 'c \<Rightarrow> bool \<Rightarrow> ('c, 'u) AudioStream" where
  "new_AudioStream u enc initialMuted =
     \<lparr>udp = u, m_isMuted = initialMuted, m_volume = Fin 1, m_opusEncoder = enc\<rparr>"

definition mute :: "('c, 'u) AudioStream \<Rightarrow> ('c, 'u) AudioStream" where
  "mute s = s\<lparr>m_isMuted := True\<rparr>"

definition unmute :: "('c, 'u) AudioStream \<Rightarrow> ('c, 'u) AudioStream" where
  "unmute s = s\<lparr>m_isMuted := False\<rparr>"

definition isMuted :: "('c, 'u) AudioStream \<Rightarrow> bool" where
  "isMuted s = m_isMuted s"

definition setVolume :: "('c, 'u) AudioStream \<Rightarrow> number \<Rightarrow> ('c, 'u) AudioStream" where
  "setVolume s v =
     (if num_lt v (Fin 0) then s\<lparr>m_volume := Fin 0\<rparr>
      else s\<lparr>m_volume := Math_min v (Fin 2)\<rparr>)"

definition getVolume :: "('c, 'u) AudioStream \<Rightarrow> number" where
  "getVolume s = m_volume s"

text \<open>
  \<open>Math.max(-32768, Math.min(32767, Math.floor(sample * this._volume)))\<close>
\<close>

definition newSample :: "rounding \<Rightarrow> number \<Rightarrow> int \<Rightarrow> number" where
  "newSample rd vol sample =
     Math_max (Fin (- 32768))
       (Math_min (Fin 32767) (Math_floor (num_mul rd (Fin (of_int sample)) vol)))"

text \<open>
  The loop \<open>for (let i = 0; i < pcmData.length; i += 2)\<close>, from index \<open>i\<close> on: it reads
  a sample, writes the scaled one in its place, and stops at the first throw.
\<close>

function scaleLoop :: "rounding \<Rightarrow> number \<Rightarrow> nat \<Rightarrow> buffer \<Rightarrow> jsval + buffer" where
  "scaleLoop rd vol i pcmData =
     (if i < length pcmData then
        (case readInt16LE pcmData i of
           Inl err \<Rightarrow> Inl err
         | Inr sample \<Rightarrow>
             (case writeInt16LE pcmData (newSample rd vol sample) i of
                Inl err \<Rightarrow> Inl err
              | Inr pcmData' \<Rightarrow> scaleLoop rd vol (i + 2) pcmData'))
      else Inr pcmData)"
  by pat_completeness auto
termination
  by (relation "measure (\<lambda>(rd, vol, i, pcmData). length pcmData - i)")
     (auto simp: writeInt16LE_def split: if_splits)

declare scaleLoop.simps [simp del]

text \<open>
  \<open>_sendFrame(frame, frametime)\<close>, named \<open>sendFrame\<close> here. The result is the outcome of
  the promise (\<open>Inl\<close> a rejection), the stream afterwards, and the calls made.
  \<open>processFrame\<close> is its middle part, from \<open>let processedFrame = frame\<close> to the end of
  the \<open>if\<close>: the \<open>try\<close> block covers the decoding, the loop and the encoding; its
  \<open>catch\<close> logs and takes the frame as it came. It returns the frame to send, the state
  of the codec and the calls made.
\<close>

definition processFrame ::
  "('c, 'u) platform \<Rightarrow> ('c, 'u) AudioStream \<Rightarrow> buffer \<Rightarrow> buffer \<times> 'c \<times> call list" where
  "processFrame X s frame =
     (if strict_neq (m_volume s) (Fin 1) then
        (case opus_decode X (m_opusEncoder s) frame of
           (Inl err, c1) \<Rightarrow> (frame, c1, [Decode frame, ConsoleError err])
         | (Inr pcmData, c1) \<Rightarrow>
             (case scaleLoop (round_double X) (m_volume s) 0 pcmData of
                Inl err \<Rightarrow> (frame, c1, [Decode frame, ConsoleError err])
              | Inr pcmData' \<Rightarrow>
                  (case opus_encode X c1 pcmData' 960 of
                     (Inl err, c2) \<Rightarrow>
                       (frame, c2, [Decode frame, Encode pcmData' 960, ConsoleError err])
                   | (Inr encoded, c2) \<Rightarrow>
                       (encoded, c2, [Decode frame, Encode pcmData' 960]))))
      else (frame, m_opusEncoder s, []))"

definition sendFrame ::
  "('c, 'u) platform \<Rightarrow> ('c, 'u) AudioStream \<Rightarrow> buffer \<Rightarrow> number \<Rightarrow>
     (jsval + unit) \<times> ('c, 'u) AudioStream \<times> call list" where
  "sendFrame X s frame frametime =
     (if m_isMuted s then (Inr (), s, [])
      else
        (case processFrame X s frame of
           (processedFrame, c, calls) \<Rightarrow>
             (case udp_sendAudioFrame X (udp s) processedFrame frametime of
                (outcome, u) \<Rightarrow>
                  (outcome, s\<lparr>m_opusEncoder := c, udp := u\<rparr>,
                   calls @ [SendAudioFrame processedFrame frametime]))))"

text \<open>
  Sending a sequence of frames through \<open>_sendFrame\<close>, one call after the other: for each
  frame, the stream as the call found it, the outcome of the call and the calls it made.
\<close>

fun sendFrames ::
  "('c, 'u) platform \<Rightarrow> ('c, 'u) AudioStream \<Rightarrow> (buffer \<times> number) list \<Rightarrow>
     (('c, 'u) AudioStream \<times> (jsval + unit) \<times> call list) list" where
  "sendFrames X s [] = []"
| "sendFrames X s ((fr, ft) # rest) =
     (case sendFrame X s fr ft of
        (outcome, s', calls) \<Rightarrow> (s, outcome, calls) # sendFrames X s' rest)"

section \<open>The paced stream\<close>

text \<open>
  Modelled from the spec: the states of a paced stream (section 3 of the specification);
  the base class \<open>BaseMediaStream\<close> is not among the sources.
\<close>

datatype stream_state = Active | Finished | Errored

text \<open>
  Modelled from the spec: the audio-carrying paced stream (section 3), the
  \<open>AudioStream\<close> of the source with the virtual clock and the state of its base class,
  which is not among the sources.
\<close>

record ('c, 'u) paced_audio =
  stream :: "('c, 'u) AudioStream"
  virtual_clock :: number
  state :: stream_state

text \<open>
  Modelled from the spec: a frame (section 3): a payload, a presentation timestamp and a
  nominal duration.
\<close>

record frame =
  payload :: buffer
  pts :: number
  frametime :: number

text \<open>
  Modelled from the spec: the dispatch of one frame by \<open>BaseMediaStream\<close>, which calls
  \<open>_sendFrame\<close> for every frame written to the stream and is not among the sources. It
  follows section 4.1 of the specification: the payload is sent through the role's
  \<open>_sendFrame\<close> with the frame's frametime (step 4); then the virtual clock advances by
  the frametime and a \<open>pts\<close> notification is emitted (step 5); a failed dispatch moves
  the stream to Errored, and a stream in a terminal state accepts no frame (step 7). The
  pacing sleep and the wait for the sync partner (steps 2 and 3) take time and change no
  field, and are left out. The result is the stream, the calls made and the \<open>pts\<close>
  notifications emitted.
\<close>

definition dispatch ::
  "('c, 'u) platform \<Rightarrow> ('c, 'u) paced_audio \<Rightarrow> frame \<Rightarrow>
     ('c, 'u) paced_audio \<times> call list \<times> number list" where
  "dispatch X p f =
     (if state p \<noteq> Active then (p, [], [])
      else
        (case sendFrame X (stream p) (payload f) (frametime f) of
           (Inl err, s, calls) \<Rightarrow> (p\<lparr>stream := s, state := Errored\<rparr>, calls, [])
         | (Inr _, s, calls) \<Rightarrow>
             (p\<lparr>stream := s,
                virtual_clock := num_add (round_double X) (virtual_clock p) (frametime f)\<rparr>,
              calls, [pts f])))"

section \<open>playStream: the session\<close>

text \<open>
  The state of one call of \<open>playStream\<close>, from the point where the executor of
  \<open>new Promise\<close> has registered its listeners. \<open>cancelSignal\<close> is optional; a signal has
  its \<open>aborted\<close> flag and its \<open>reason\<close> (\<open>undefined\<close> until it is aborted).
\<close>

record AbortSignal =
  aborted :: bool
  reason :: jsval

datatype promise = Pending | Fulfilled | Rejected jsval

text \<open>
  The closures pushed to \<open>cleanupFuncs\<close>: the one of the promise executor, and the two
  of the stream preview. What each does when called is \<open>cleanupBody\<close>;
  \<open>stopStream\<close> is \<open>() => console.log("Aborted")\<close>, the call of
  \<open>streamer.stopStream()\<close> being commented out in the source.
\<close>

datatype cleanupFunc = TransportCleanup | FreeDecoder | OffData

datatype effect =
    ConsoleLog string
  | StreamerStopStream
  | SetSpeaking bool
  | SetVideoAttributes bool
  | DecoderFree
  | VideoOffData

fun cleanupBody :: "cleanupFunc \<Rightarrow> effect list" where
  "cleanupBody TransportCleanup =
     [ConsoleLog ''Aborted'', SetSpeaking False, SetVideoAttributes False]"
| "cleanupBody FreeDecoder = [DecoderFree]"
| "cleanupBody OffData = [VideoOffData]"

record session =
  cancelSignal :: "AbortSignal option"
  abortListener :: bool
  finishListener :: bool
  videoErrorListener :: bool
  audioErrorListener :: bool
  cleanupFuncs :: "cleanupFunc list"
  cleanedUp :: bool
  called :: "cleanupFunc list"
  promise :: promise
  streamPromise :: promise
  errorLog :: "jsval list"
  previewPending :: bool
  hasAudio :: bool
  burstTime :: "number option"
  vSync :: bool
  vNoSleep :: bool
  aNoSleep :: bool
  ptsListener :: bool
  burstStopped :: "number list"

text \<open>\<open>cancelSignal?.aborted\<close> and \<open>cancelSignal?.reason\<close>\<close>

definition signal_aborted :: "session \<Rightarrow> bool" where
  "signal_aborted s = (case cancelSignal s of None \<Rightarrow> False | Some sg \<Rightarrow> aborted sg)"

definition signal_reason :: "session \<Rightarrow> jsval" where
  "signal_reason s = (case cancelSignal s of None \<Rightarrow> Undefined | Some sg \<Rightarrow> reason sg)"

text \<open>What the cleanup functions called so far have done, in order.\<close>

definition effects :: "session \<Rightarrow> effect list" where
  "effects s = concat (map cleanupBody (called s))"

text \<open>
  What \<open>playStream\<close> is called with, as far as the session depends on it: the signal
  in the state it has when the listeners are registered, whether the input has an audio
  stream, \<open>mergedOptions.readrateInitialBurst\<close> (\<open>None\<close> for \<open>undefined\<close>), whether the
  preview is started (\<open>streamPreview\<close> and type \<open>go-live\<close>), and the \<open>sync\<close> and
  \<open>noSleep\<close> that \<open>new VideoStream(udp)\<close> starts with (its constructor is not among
  the sources).
\<close>

record config =
  signal :: "AbortSignal option"
  audio :: bool
  readrateInitialBurst :: "number option"
  preview :: bool
  sync0 :: bool
  noSleep0 :: bool

text \<open>
  The session when \<open>playStream\<close> returns, its preconditions passed (a voice connection,
  a video stream in the input, a signal not aborted at the two \<open>throwIfAborted()\<close>).
  The burst is armed inside \<open>if (audio)\<close>, when \<open>typeof burstTime === "number"\<close>; the
  audio stream is constructed with \<open>noSleep = false\<close>. The abort listener is added to
  the signal with \<open>addEventListener\<close>, whatever the state of the signal; the executor
  pushes its cleanup function before the two of the preview, which are pushed when the
  decoder is ready.
\<close>

definition armed :: "config \<Rightarrow> bool" where
  "armed c = (audio c \<and> readrateInitialBurst c \<noteq> None)"

definition playStream :: "config \<Rightarrow> session" where
  "playStream c =
     \<lparr>cancelSignal = signal c,
      abortListener = (signal c \<noteq> None),
      finishListener = True,
      videoErrorListener = True,
      audioErrorListener = audio c,
      cleanupFuncs = [TransportCleanup],
      cleanedUp = False,
      called = [],
      promise = Pending,
      streamPromise = Pending,
      errorLog = [],
      previewPending = preview c,
      hasAudio = audio c,
      burstTime = (if audio c then readrateInitialBurst c else None),
      vSync = (if armed c then False else sync0 c),
      vNoSleep = (if armed c then True else noSleep0 c),
      aNoSleep = (if armed c then True else False),
      ptsListener = armed c,
      burstStopped = []\<rparr>"

text \<open>
  \<open>cleanup\<close>: guarded by \<open>cleanedUp\<close>, it calls every function of \<open>cleanupFuncs\<close>.
\<close>

definition cleanup :: "session \<Rightarrow> session" where
  "cleanup s =
     (if cleanedUp s then s
      else s\<lparr>cleanedUp := True, called := called s @ cleanupFuncs s\<rparr>)"

text \<open>
  \<open>resolve()\<close> and \<open>reject(err)\<close> settle the promise of the executor, once.
\<close>

definition resolve :: "session \<Rightarrow> session" where
  "resolve s = (if promise s = Pending then s\<lparr>promise := Fulfilled\<rparr> else s)"

definition reject :: "session \<Rightarrow> jsval \<Rightarrow> session" where
  "reject s err = (if promise s = Pending then s\<lparr>promise := Rejected err\<rparr> else s)"

text \<open>
  The handler given to \<open>catch\<close>, called with the value the promise was rejected with. It
  reads the signal when it runs: it logs unless the signal is aborted, throws \<open>err\<close>
  again when \<open>err !== cancelSignal?.reason\<close> (\<open>streamPromise\<close> is then rejected with
  \<open>err\<close>), and returns otherwise (\<open>streamPromise\<close> is then fulfilled).
\<close>

definition catch_handler :: "session \<Rightarrow> jsval \<Rightarrow> session" where
  "catch_handler s err =
     s\<lparr>errorLog := (if \<not> signal_aborted s then errorLog s @ [err] else errorLog s),
       streamPromise :=
         (if val_strict_neq err (signal_reason s) then Rejected err else Fulfilled)\<rparr>"

text \<open>
  \<open>stopBurst(pts)\<close>, the listener of the video stream's \<open>pts\<close> event. \<open>burstStopped\<close>
  records the timestamps at which its body went past the test.
\<close>

definition threshold :: "rounding \<Rightarrow> number \<Rightarrow> number" where
  "threshold rd bt = num_mul rd bt (Fin 1000)"

definition stopBurst :: "rounding \<Rightarrow> number \<Rightarrow> session \<Rightarrow> number \<Rightarrow> session" where
  "stopBurst rd bt s t =
     (if num_lt t (threshold rd bt) then s
      else
        (let s1 = s\<lparr>vSync := True\<rparr>;
             s2 = (if hasAudio s1 then s1\<lparr>vNoSleep := False, aNoSleep := False\<rparr> else s1)
         in s2\<lparr>ptsListener := False, burstStopped := burstStopped s2 @ [t]\<rparr>))"

text \<open>
  What can happen to a session: the signal is aborted with a reason
  (\<open>controller.abort(r)\<close>; without a reason the signal takes an \<open>AbortError\<close>), the video
  stream emits \<open>finish\<close> or \<open>error\<close>, the audio input \<open>audio.stream\<close> emits \<open>error\<close>,
  the audio stream \<open>audioStreamInstance\<close> emits \<open>error\<close>, the video stream emits
  \<open>pts\<close>, the decoder of the preview is ready, and the reaction of \<open>streamPromise\<close> to
  the settled promise runs. The listeners of \<open>abort\<close>, \<open>finish\<close> and \<open>error\<close> are
  registered once: each is removed when it is called. An abort of a signal that is
  already aborted does nothing. \<open>playStream\<close> registers no listener on
  \<open>audioStreamInstance\<close>: its \<open>error\<close> calls nothing of the session.

  The reaction is a microtask: it is queued when the promise settles and runs after the
  code of the current turn, so the events between a settling and the next \<open>Microtask\<close>
  in a sequence are those of the same turn. It fulfils \<open>streamPromise\<close> when the promise
  is fulfilled and runs the \<open>catch\<close> handler when it is rejected, once.
\<close>

datatype event =
    Abort jsval
  | Finish
  | VideoError jsval
  | AudioError jsval
  | AudioStreamError jsval
  | Pts number
  | DecoderReady
  | Microtask

fun step :: "rounding \<Rightarrow> session \<Rightarrow> event \<Rightarrow> session" where
  "step rd s (Abort r) =
     (case cancelSignal s of
        None \<Rightarrow> s
      | Some sg \<Rightarrow>
          if aborted sg then s
          else
            (let s1 = s\<lparr>cancelSignal :=
                         Some (sg\<lparr>aborted := True,
                                  reason := (if r = Undefined then AbortError else r)\<rparr>)\<rparr>
             in if abortListener s1
                then reject (cleanup (s1\<lparr>abortListener := False\<rparr>)) (signal_reason s1)
                else s1))"
| "step rd s Finish =
     (if finishListener s then
        (let s1 = s\<lparr>finishListener := False\<rparr>
         in if signal_aborted s1 then s1 else resolve (cleanup s1))
      else s)"
| "step rd s (VideoError err) =
     (if videoErrorListener s then
        (let s1 = s\<lparr>videoErrorListener := False\<rparr>
         in if signal_aborted s1 then s1 else reject (cleanup s1) err)
      else s)"
| "step rd s (AudioError err) =
     (if audioErrorListener s then
        (let s1 = s\<lparr>audioErrorListener := False\<rparr>
         in if signal_aborted s1 then s1 else reject (cleanup s1) err)
      else s)"
| "step rd s (Pts t) =
     (if ptsListener s then
        (case burstTime s of None \<Rightarrow> s | Some bt \<Rightarrow> stopBurst rd bt s t)
      else s)"
| "step rd s DecoderReady =
     (if previewPending s then
        s\<lparr>previewPending := False, cleanupFuncs := cleanupFuncs s @ [FreeDecoder, OffData]\<rparr>
      else s)"
| "step rd s (AudioStreamError err) = s"
| "step rd s Microtask =
     (if streamPromise s = Pending then
        (case promise s of
           Pending \<Rightarrow> s
         | Fulfilled \<Rightarrow> s\<lparr>streamPromise := Fulfilled\<rparr>
         | Rejected err \<Rightarrow> catch_handler s err)
      else s)"

definition run :: "rounding \<Rightarrow> session \<Rightarrow> event list \<Rightarrow> session" where
  "run rd s es = foldl (step rd) s es"

section \<open>Reference definitions for the session\<close>

text \<open>
  A signal that is not aborted when the listeners are registered (or no signal at all);
  the reason of such a signal is \<open>undefined\<close>.
\<close>

definition fresh :: "config \<Rightarrow> bool" where
  "fresh c = (case signal c of None \<Rightarrow> True | Some sg \<Rightarrow> \<not> aborted sg \<and> reason sg = Undefined)"

text \<open>
  The terminal triggers of a session: the events it has a listener for. An abort needs a
  signal, an error of the audio input needs an audio stream; an error of the audio stream
  itself has no listener.
\<close>

fun terminal :: "config \<Rightarrow> event \<Rightarrow> bool" where
  "terminal c (Abort r) = (signal c \<noteq> None)"
| "terminal c Finish = True"
| "terminal c (VideoError err) = True"
| "terminal c (AudioError err) = audio c"
| "terminal c (AudioStreamError err) = False"
| "terminal c (Pts t) = False"
| "terminal c DecoderReady = False"
| "terminal c Microtask = False"

text \<open>
  The flags the burst changes, together: \<open>sync\<close> and \<open>noSleep\<close> of the video stream,
  \<open>noSleep\<close> of the audio stream, whether \<open>stopBurst\<close> is subscribed, and the timestamps
  at which it went past its test.
\<close>

definition burst_flags :: "session \<Rightarrow> bool \<times> bool \<times> bool \<times> bool \<times> number list" where
  "burst_flags s = (vSync s, vNoSleep s, aNoSleep s, ptsListener s, burstStopped s)"

text \<open>
  Invariants of the session used in the proofs. \<open>live\<close>: no terminal trigger has been
  handled yet. \<open>settled\<close>: the cleanup has run and the promise is settled. \<open>tidy\<close>: no
  cleanup function is registered or called twice. \<open>stuck\<close>: the signal is aborted and
  nothing has been cleaned up or settled.
\<close>

definition live :: "config \<Rightarrow> session \<Rightarrow> bool" where
  "live c s =
     (\<not> cleanedUp s \<and> \<not> signal_aborted s \<and> signal_reason s = Undefined
      \<and> promise s = Pending \<and> streamPromise s = Pending \<and> called s = [] \<and> errorLog s = []
      \<and> finishListener s \<and> videoErrorListener s
      \<and> audioErrorListener s = audio c
      \<and> abortListener s = (signal c \<noteq> None)
      \<and> (cancelSignal s = None) = (signal c = None)
      \<and> (cleanupFuncs s = [TransportCleanup]
           \<or> cleanupFuncs s = [TransportCleanup, FreeDecoder, OffData] \<and> \<not> previewPending s))"

definition settled :: "session \<Rightarrow> bool" where
  "settled s = (cleanedUp s \<and> promise s \<noteq> Pending)"

definition tidy :: "session \<Rightarrow> bool" where
  "tidy s =
     (distinct (cleanupFuncs s)
      \<and> (previewPending s \<longrightarrow> FreeDecoder \<notin> set (cleanupFuncs s) \<and> OffData \<notin> set (cleanupFuncs s))
      \<and> distinct (called s)
      \<and> (\<not> cleanedUp s \<longrightarrow> called s = []))"

definition stuck :: "session \<Rightarrow> bool" where
  "stuck s =
     (signal_aborted s \<and> \<not> cleanedUp s \<and> called s = []
      \<and> promise s = Pending \<and> streamPromise s = Pending)"

text \<open>
  Two calls of \<open>playStream\<close> on which the definitions are evaluated: both with audio,
  a burst of 2 seconds and the preview; in the first the signal is not aborted, in the
  second it was aborted (with reason \<open>Ref 1\<close>) while \<open>playStream\<close> was waiting for
  \<open>streamer.createStream()\<close> or for the delay of 250 ms, after the last
  \<open>throwIfAborted()\<close> and before the listeners were registered.
\<close>

definition demo :: config where
  "demo = \<lparr>signal = Some \<lparr>aborted = False, reason = Undefined\<rparr>, audio = True,
            readrateInitialBurst = Some (Fin 2), preview = True, sync0 = True, noSleep0 = False\<rparr>"

definition aborted_in_setup :: config where
  "aborted_in_setup = demo\<lparr>signal := Some \<lparr>aborted = True, reason = Ref 1\<rparr>\<rparr>"

section \<open>Reference definitions and test platforms\<close>

text \<open>
  The saturating conversion to a signed 16-bit sample, as the specification words it:
  the floor of the value, held at the ends of the range \<open>[-32768, 32767]\<close>. The
  infinities are held at the ends too; NaN gives 0, which is what the buffer keeps of it.
  It is the reference the loop of \<open>_sendFrame\<close> is compared with.
\<close>

definition saturate16 :: "number \<Rightarrow> int" where
  "saturate16 x =
     (case x of
        NaN \<Rightarrow> 0
      | NInf \<Rightarrow> - 32768
      | PInf \<Rightarrow> 32767
      | Fin q \<Rightarrow> max (- 32768) (min 32767 \<lfloor>q\<rfloor>))"

text \<open>
  The decode, scale and re-encode path of one \<open>_sendFrame\<close>, as the specification words
  it, said of the outcome and of the calls of a send that found the stream \<open>s\<close>. The
  frame is decoded first. When the decoder throws, the throw is logged and the frame is
  sent as it came. When it returns PCM data (of even length, as 16-bit samples are),
  some buffer of the same length holds, for every sample, the saturating conversion of
  the sample times the volume; that buffer is encoded with the frame size 960, and the
  encoded buffer is sent, or, when the encoder throws, the throw is logged and the frame
  is sent as it came. The frametime is the one given, and the outcome is the transport's.
\<close>

definition takes_scaling_path ::
  "('c, 'u) platform \<Rightarrow> ('c, 'u) AudioStream \<Rightarrow> buffer \<Rightarrow> number \<Rightarrow>
     (jsval + unit) \<Rightarrow> call list \<Rightarrow> bool" where
  "takes_scaling_path X s fr ft outcome calls =
     ((\<exists>rest. calls = Decode fr # rest)
      \<and> (\<forall>err c1. opus_decode X (m_opusEncoder s) fr = (Inl err, c1) \<longrightarrow>
            calls = [Decode fr, ConsoleError err, SendAudioFrame fr ft]
            \<and> outcome = fst (udp_sendAudioFrame X (udp s) fr ft))
      \<and> (\<forall>pcmData c1.
            opus_decode X (m_opusEncoder s) fr = (Inr pcmData, c1) \<and> even (length pcmData) \<longrightarrow>
            (\<exists>pcmData'.
               length pcmData' = length pcmData
               \<and> (\<forall>i. even i \<and> i < length pcmData \<longrightarrow>
                    (\<exists>sample.
                       readInt16LE pcmData i = Inr sample
                       \<and> readInt16LE pcmData' i =
                           Inr (saturate16
                                  (num_mul (round_double X) (Fin (of_int sample)) (getVolume s)))))
               \<and> (\<forall>encoded c2. opus_encode X c1 pcmData' 960 = (Inr encoded, c2) \<longrightarrow>
                    calls = [Decode fr, Encode pcmData' 960, SendAudioFrame encoded ft]
                    \<and> outcome = fst (udp_sendAudioFrame X (udp s) encoded ft))
               \<and> (\<forall>err c2. opus_encode X c1 pcmData' 960 = (Inl err, c2) \<longrightarrow>
                    calls = [Decode fr, Encode pcmData' 960, ConsoleError err,
                             SendAudioFrame fr ft]
                    \<and> outcome = fst (udp_sendAudioFrame X (udp s) fr ft)))))"

text \<open>
  Two platforms on which the definitions are evaluated: one whose codec hands the bytes
  back unchanged and whose transport accepts every frame, one whose codec throws.
  The states of the codec and of the transport count the calls.
\<close>

definition loopback :: "(nat, nat) platform" where
  "loopback =
     \<lparr>round_double = Fin,
      opus_decode = (\<lambda>c fr. (Inr fr, c + 1)),
      opus_encode = (\<lambda>c pcm n. (Inr pcm, c + 1)),
      udp_sendAudioFrame = (\<lambda>u fr ft. (Inr (), u + 1))\<rparr>"

definition broken_codec :: "(nat, nat) platform" where
  "broken_codec =
     \<lparr>round_double = Fin,
      opus_decode = (\<lambda>c fr. (Inl (Ref 7), c + 1)),
      opus_encode = (\<lambda>c pcm n. (Inl (Ref 8), c + 1)),
      udp_sendAudioFrame = (\<lambda>u fr ft. (Inr (), u + 1))\<rparr>"

section \<open>Properties of the audio stream\<close>

lemma saturate16_range: "- 32768 \<le> saturate16 x \<and> saturate16 x \<le> 32767"
  by (cases x) (auto simp: saturate16_def)

lemma clamp_int:
  "Math_max (Fin (- 32768)) (Math_min (Fin 32767) (Fin (of_int f)))
     = Fin (of_int (max (- 32768) (min 32767 f)))"
  by (auto simp: Math_max_def Math_min_def min_def max_def)

lemma newSample_cases:
  "newSample rd vol sample =
     (if num_mul rd (Fin (of_int sample)) vol = NaN then NaN
      else Fin (of_int (saturate16 (num_mul rd (Fin (of_int sample)) vol))))"
proof (cases "num_mul rd (Fin (of_int sample)) vol")
  case (Fin q)
  then show ?thesis
    unfolding newSample_def by (simp only: Math_floor.simps clamp_int saturate16_def) simp
qed (auto simp: newSample_def Math_max_def Math_min_def saturate16_def)

lemma trunc_of_int [simp]: "trunc (of_int k) = k"
  by (simp add: trunc_def)

lemma int16_bytes:
  assumes "- 32768 \<le> k" "k \<le> 32767"
  shows "(let val = uint (word_of_int k :: 8 word)
                  + uint (word_of_int ((k mod 2 ^ 32) div 2 ^ 8) :: 8 word) * 2 ^ 8
         in (if 32768 \<le> val then val - 65536 else val)) = k"
proof -
  have lo: "uint (word_of_int k :: 8 word) = k mod 256"
    by (simp add: uint_word_of_int)
  have hi: "uint (word_of_int ((k mod 2 ^ 32) div 2 ^ 8) :: 8 word)
              = ((k mod 4294967296) div 256) mod 256"
    by (simp add: uint_word_of_int)
  have c: "k mod 256 + k div 256 * 256 = k" by simp
  show ?thesis
  proof (cases "0 \<le> k")
    case True
    then have a: "k mod 4294967296 = k" using assms by simp
    have b: "k div 256 mod 256 = k div 256" using True assms by simp
    show ?thesis unfolding Let_def lo hi a b using assms True c by simp
  next
    case False
    then have a: "k mod 4294967296 = k + 4294967296" using assms
      by (simp add: int_mod_pos_eq[where q="-1"])
    have b: "(k + 4294967296) div 256 = k div 256 + 16777216" by simp
    have "(k div 256 + 65536 * 256) mod 256 = k div 256 mod 256"
      by (rule mod_mult_self1)
    then have b2: "(k div 256 + 16777216) mod 256 = k div 256 mod 256"
      by simp
    have b3: "k div 256 mod 256 = k div 256 + 256" using False assms
      by (simp add: int_mod_pos_eq[where q="-1"])
    show ?thesis unfolding Let_def lo hi a b b2 b3 using assms False c by simp
  qed
qed

lemma readInt16LE_cong:
  "length a = length b \<Longrightarrow> a ! j = b ! j \<Longrightarrow> a ! (j + 1) = b ! (j + 1)
     \<Longrightarrow> readInt16LE a j = readInt16LE b j"
  by (simp add: readInt16LE_def)

lemma write_newSample:
  assumes "i + 1 < length buf"
  shows "\<exists>buf'. writeInt16LE buf (newSample rd vol sample) i = Inr buf'
           \<and> length buf' = length buf
           \<and> (\<forall>j. j \<noteq> i \<and> j \<noteq> i + 1 \<longrightarrow> buf' ! j = buf ! j)
           \<and> readInt16LE buf' i = Inr (saturate16 (num_mul rd (Fin (of_int sample)) vol))"
proof (cases "num_mul rd (Fin (of_int sample)) vol = NaN")
  case True
  then have v: "newSample rd vol sample = NaN" by (simp add: newSample_cases)
  show ?thesis using assms True unfolding v
    by (simp add: writeInt16LE_def readInt16LE_def saturate16_def)
next
  case False
  define k where "k = saturate16 (num_mul rd (Fin (of_int sample)) vol)"
  have v: "newSample rd vol sample = Fin (of_int k)"
    using False by (simp add: newSample_cases k_def)
  have r: "- 32768 \<le> k" "k \<le> 32767" using saturate16_range[of "num_mul rd (Fin (of_int sample)) vol"]
    by (simp_all add: k_def)
  have w: "writeInt16LE buf (Fin (of_int k)) i
             = Inr (buf[i := word_of_int k, i + 1 := word_of_int ((k mod 2 ^ 32) div 2 ^ 8)])"
    using assms r by (simp add: writeInt16LE_def)
  have rd: "readInt16LE (buf[i := word_of_int k, i + 1 := word_of_int ((k mod 2 ^ 32) div 2 ^ 8)]) i
             = Inr k"
    using assms int16_bytes[OF r] by (simp add: readInt16LE_def Let_def)
  show ?thesis unfolding v w using rd by (simp add: k_def)
qed

lemma scaleLoop_scaled:
  "i \<le> length pcm \<Longrightarrow> even (length pcm - i) \<Longrightarrow>
   \<exists>pcm'. scaleLoop rd vol i pcm = Inr pcm' \<and> length pcm' = length pcm \<and>
      (\<forall>j<i. pcm' ! j = pcm ! j) \<and>
      (\<forall>j. i \<le> j \<and> even (j - i) \<and> j < length pcm \<longrightarrow>
         (\<exists>sample. readInt16LE pcm j = Inr sample \<and>
            readInt16LE pcm' j = Inr (saturate16 (num_mul rd (Fin (of_int sample)) vol))))"
proof (induction rd vol i pcm rule: scaleLoop.induct)
  case (1 rd vol i pcm)
  show ?case
  proof (cases "i < length pcm")
    case False
    with "1.prems" have "i = length pcm" by simp
    then show ?thesis by (subst scaleLoop.simps) auto
  next
    case True
    with "1.prems" have two: "i + 1 < length pcm"
      by (cases "length pcm - i = 1") auto
    obtain sample where rs: "readInt16LE pcm i = Inr sample"
      using two by (simp add: readInt16LE_def Let_def)
    obtain pcm1 where w: "writeInt16LE pcm (newSample rd vol sample) i = Inr pcm1"
      and len1: "length pcm1 = length pcm"
      and same1: "\<forall>j. j \<noteq> i \<and> j \<noteq> i + 1 \<longrightarrow> pcm1 ! j = pcm ! j"
      and r1: "readInt16LE pcm1 i = Inr (saturate16 (num_mul rd (Fin (of_int sample)) vol))"
      using write_newSample[OF two, of rd vol sample] by blast
    have ev: "even (length pcm1 - (i + 2))" using "1.prems" two len1 by simp
    have le: "i + 2 \<le> length pcm1" using two len1 by simp
    obtain pcm' where res: "scaleLoop rd vol (i + 2) pcm1 = Inr pcm'"
      and len': "length pcm' = length pcm1"
      and low: "\<forall>j<i + 2. pcm' ! j = pcm1 ! j"
      and high: "\<forall>j. i + 2 \<le> j \<and> even (j - (i + 2)) \<and> j < length pcm1 \<longrightarrow>
         (\<exists>sample. readInt16LE pcm1 j = Inr sample \<and>
            readInt16LE pcm' j = Inr (saturate16 (num_mul rd (Fin (of_int sample)) vol)))"
      using "1.IH"[OF True rs w le ev] by blast
    have eq: "scaleLoop rd vol i pcm = Inr pcm'"
      using res by (subst scaleLoop.simps) (simp add: True rs w)
    have lowi: "\<forall>j<i. pcm' ! j = pcm ! j" using low same1 by simp
    have at: "\<exists>sample. readInt16LE pcm j = Inr sample \<and>
            readInt16LE pcm' j = Inr (saturate16 (num_mul rd (Fin (of_int sample)) vol))"
      if j: "i \<le> j" "even (j - i)" "j < length pcm" for j
    proof (cases "j = i")
      case True
      have "readInt16LE pcm' i = readInt16LE pcm1 i"
        using low len' by (intro readInt16LE_cong) simp_all
      then show ?thesis using True rs r1 by simp
    next
      case False
      with j have ge: "i + 2 \<le> j" by (cases "j = i + 1") auto
      then have ev2: "even (j - (i + 2))" using j by simp
      obtain smp where a: "readInt16LE pcm1 j = Inr smp"
        and b: "readInt16LE pcm' j = Inr (saturate16 (num_mul rd (Fin (of_int smp)) vol))"
        using high ge ev2 j len1 by auto
      have "readInt16LE pcm1 j = readInt16LE pcm j"
        using same1 ge len1 by (intro readInt16LE_cong) simp_all
      then have "readInt16LE pcm j = Inr smp" using a by simp
      then show ?thesis using b by blast
    qed
    have l: "length pcm' = length pcm" using len' len1 by simp
    from at have "\<forall>j. i \<le> j \<and> even (j - i) \<and> j < length pcm \<longrightarrow>
         (\<exists>sample. readInt16LE pcm j = Inr sample \<and>
            readInt16LE pcm' j = Inr (saturate16 (num_mul rd (Fin (of_int sample)) vol)))"
      by blast
    then show ?thesis using eq l lowi by blast
  qed
qed

lemma setVolume_clamps:
  "v \<noteq> NaN \<Longrightarrow> num_le (Fin 0) (getVolume (setVolume s v)) \<and> num_le (getVolume (setVolume s v)) (Fin 2)"
  by (cases v) (auto simp: setVolume_def getVolume_def Math_min_def num_le_def)

lemma setVolume_negative:
  "num_lt v (Fin 0) \<Longrightarrow> getVolume (setVolume s v) = Fin 0"
  by (simp add: setVolume_def getVolume_def)

lemma setVolume_above:
  "num_lt (Fin 2) v \<Longrightarrow> getVolume (setVolume s v) = Fin 2"
  by (cases v) (auto simp: setVolume_def getVolume_def Math_min_def)

lemma setVolume_inside:
  "num_le (Fin 0) v \<Longrightarrow> num_le v (Fin 2) \<Longrightarrow> getVolume (setVolume s v) = v"
  by (cases v) (auto simp: setVolume_def getVolume_def Math_min_def num_le_def)

lemma setVolume_examples:
  "getVolume (setVolume s (Fin (- 1))) = Fin 0 \<and> getVolume (setVolume s (Fin 5)) = Fin 2"
  by (simp add: setVolume_def getVolume_def Math_min_def)

text \<open>
  C6: the clamp of \<open>setVolume\<close> to \<open>[0, 2]\<close> holds for every argument except NaN
  (\<open>setVolume_clamps\<close>, \<open>setVolume_negative\<close>, \<open>setVolume_above\<close>, \<open>setVolume_inside\<close>
  and \<open>setVolume_examples\<close> above). At NaN neither branch clamps: on a new stream,
  \<open>getVolume()\<close> after \<open>setVolume(NaN)\<close> is NaN, outside \<open>[0, 2]\<close>.
\<close>

theorem setVolume_NaN_not_clamped:
  "getVolume (setVolume (new_AudioStream (0::nat) (0::nat) False) NaN) = NaN
   \<and> \<not> (num_le (Fin 0) (getVolume (setVolume (new_AudioStream (0::nat) (0::nat) False) NaN))
        \<and> num_le (getVolume (setVolume (new_AudioStream (0::nat) (0::nat) False) NaN)) (Fin 2))"
  by (simp add: setVolume_def getVolume_def Math_min_def num_le_def new_AudioStream_def)

text \<open>
  C5: calling \<open>mute()\<close> twice leaves the stream as calling it once does, and the stream
  is then muted. For a frame sent while \<open>isMuted()\<close> is true, \<open>_sendFrame\<close> resolves
  with no call made (\<open>sendAudioFrame\<close> is not invoked) and the stream unchanged; and
  the dispatch of that frame by the paced stream still advances the virtual clock by the
  frame's frametime and emits its \<open>pts\<close>.
\<close>

theorem mute_idempotent_silent:
  "mute (mute s) = mute s
   \<and> isMuted (mute s)
   \<and> (isMuted s \<longrightarrow> sendFrame X s fr ft = (Inr (), s, []))
   \<and> (isMuted (stream p) \<and> state p = Active \<longrightarrow>
        dispatch X p f =
          (p\<lparr>virtual_clock := num_add (round_double X) (virtual_clock p) (frametime f)\<rparr>,
           [], [pts f]))"
  by (simp add: mute_def isMuted_def sendFrame_def dispatch_def)

theorem mute_idempotent_silent_witness:
  "isMuted (mute (new_AudioStream (0::nat) (0::nat) False))
   \<and> sendFrame loopback (mute (new_AudioStream 0 0 False)) [1, 2] (Fin 20)
       = (Inr (), mute (new_AudioStream 0 0 False), [])
   \<and> dispatch loopback
        \<lparr>stream = mute (new_AudioStream 0 0 False), virtual_clock = Fin 40, state = Active\<rparr>
        \<lparr>payload = [1, 2], pts = Fin 40, frametime = Fin 20\<rparr>
       = (\<lparr>stream = mute (new_AudioStream 0 0 False), virtual_clock = Fin 60, state = Active\<rparr>,
          [], [Fin 40])"
  using mute_idempotent_silent [of "mute (new_AudioStream (0::nat) (0::nat) False)" loopback
      "[1, 2]" "Fin 20"
      "\<lparr>stream = mute (new_AudioStream 0 0 False), virtual_clock = Fin 40, state = Active\<rparr>"
      "\<lparr>payload = [1, 2], pts = Fin 40, frametime = Fin 20\<rparr>"]
  by (simp add: loopback_def isMuted_def mute_def new_AudioStream_def)

text \<open>
  C7: \<open>setVolume(1)\<close> stores 1.0, and with the volume at 1.0 and the stream not muted,
  \<open>_sendFrame\<close> makes one call only, \<open>sendAudioFrame\<close> with the payload it was given and
  the same frametime: no decode, no encode, the codec state untouched; its outcome is the
  transport's.
\<close>

theorem unity_volume_passthrough:
  "getVolume (setVolume s (Fin 1)) = Fin 1
   \<and> (\<not> isMuted s \<and> getVolume s = Fin 1 \<longrightarrow>
        sendFrame X s fr ft =
          (fst (udp_sendAudioFrame X (udp s) fr ft),
           s\<lparr>udp := snd (udp_sendAudioFrame X (udp s) fr ft)\<rparr>,
           [SendAudioFrame fr ft]))"
  by (simp add: setVolume_def getVolume_def isMuted_def sendFrame_def processFrame_def
      Math_min_def strict_neq_def split: prod.splits)

theorem unity_volume_passthrough_witness:
  "\<not> isMuted (new_AudioStream (0::nat) (0::nat) False)
   \<and> getVolume (new_AudioStream (0::nat) (0::nat) False) = Fin 1
   \<and> sendFrame loopback (new_AudioStream 0 0 False) [1, 2, 3] (Fin 20)
       = (Inr (), (new_AudioStream 0 0 False)\<lparr>udp := 1\<rparr>, [SendAudioFrame [1, 2, 3] (Fin 20)])"
  using unity_volume_passthrough [of "new_AudioStream (0::nat) (0::nat) False" loopback
      "[1, 2, 3]" "Fin 20"]
  by (simp add: loopback_def isMuted_def getVolume_def new_AudioStream_def)

lemma processFrame_scaled:
  assumes "strict_neq (m_volume s) (Fin 1)"
    and "opus_decode X (m_opusEncoder s) fr = (Inr pcmData, c1)"
    and "scaleLoop (round_double X) (m_volume s) 0 pcmData = Inr pcmData'"
    and "opus_encode X c1 pcmData' 960 = (Inr encoded, c2)"
  shows "processFrame X s fr = (encoded, c2, [Decode fr, Encode pcmData' 960])"
  using assms by (simp add: processFrame_def)

text \<open>
  C8: when the stream is not muted, the volume differs from 1.0 and the decoder returns
  PCM data (of even length, as 16-bit samples are), the loop replaces every sample by
  the saturating conversion of the sample times the volume: the floor of the product,
  held inside \<open>[-32768, 32767]\<close>, never wrapped. When the encoder accepts that buffer
  (called with the frame size 960), \<open>sendAudioFrame\<close> receives the encoded buffer with
  the frametime \<open>_sendFrame\<close> was given.
\<close>

theorem volume_scaling_saturates:
  assumes "\<not> isMuted s" and "strict_neq (getVolume s) (Fin 1)"
    and "opus_decode X (m_opusEncoder s) fr = (Inr pcmData, c1)"
    and "even (length pcmData)"
  shows "\<exists>pcmData'.
     length pcmData' = length pcmData
     \<and> (\<forall>i. even i \<and> i < length pcmData \<longrightarrow>
          (\<exists>sample scaled.
             readInt16LE pcmData i = Inr sample
             \<and> readInt16LE pcmData' i = Inr scaled
             \<and> scaled = saturate16 (num_mul (round_double X) (Fin (of_int sample)) (getVolume s))
             \<and> - 32768 \<le> scaled \<and> scaled \<le> 32767))
     \<and> (\<forall>encoded c2. opus_encode X c1 pcmData' 960 = (Inr encoded, c2) \<longrightarrow>
          sendFrame X s fr ft =
            (fst (udp_sendAudioFrame X (udp s) encoded ft),
             s\<lparr>m_opusEncoder := c2, udp := snd (udp_sendAudioFrame X (udp s) encoded ft)\<rparr>,
             [Decode fr, Encode pcmData' 960, SendAudioFrame encoded ft]))"
proof -
  obtain pcmData' where loop: "scaleLoop (round_double X) (m_volume s) 0 pcmData = Inr pcmData'"
    and len: "length pcmData' = length pcmData"
    and at: "\<forall>j. 0 \<le> j \<and> even (j - 0) \<and> j < length pcmData \<longrightarrow>
         (\<exists>sample. readInt16LE pcmData j = Inr sample \<and>
            readInt16LE pcmData' j =
              Inr (saturate16 (num_mul (round_double X) (Fin (of_int sample)) (m_volume s))))"
    using scaleLoop_scaled[of 0 pcmData "round_double X" "m_volume s"] assms(4) by auto
  have samples: "\<exists>sample scaled.
             readInt16LE pcmData i = Inr sample
             \<and> readInt16LE pcmData' i = Inr scaled
             \<and> scaled = saturate16 (num_mul (round_double X) (Fin (of_int sample)) (getVolume s))
             \<and> - 32768 \<le> scaled \<and> scaled \<le> 32767"
    if "even i" "i < length pcmData" for i
    using at that saturate16_range by (auto simp: getVolume_def)
  have send: "sendFrame X s fr ft =
            (fst (udp_sendAudioFrame X (udp s) encoded ft),
             s\<lparr>m_opusEncoder := c2, udp := snd (udp_sendAudioFrame X (udp s) encoded ft)\<rparr>,
             [Decode fr, Encode pcmData' 960, SendAudioFrame encoded ft])"
    if "opus_encode X c1 pcmData' 960 = (Inr encoded, c2)" for encoded c2
    using assms(1) processFrame_scaled[OF _ assms(3) loop that] assms(2)
    by (simp add: sendFrame_def isMuted_def getVolume_def split: prod.splits)
  show ?thesis using len samples send by blast
qed

lemma sendFrame_example:
  "sendFrame loopback (setVolume (new_AudioStream 0 0 False) (Fin 2)) [255, 127, 1, 0, 0, 128] (Fin 20)
     = (Inr (),
        \<lparr>udp = 1, m_isMuted = False, m_volume = Fin 2, m_opusEncoder = 2\<rparr>,
        [Decode [255, 127, 1, 0, 0, 128], Encode [255, 127, 2, 0, 0, 128] 960,
         SendAudioFrame [255, 127, 2, 0, 0, 128] (Fin 20)])"
  by (simp add: sendFrame_def processFrame_def scaleLoop.simps readInt16LE_def writeInt16LE_def
      newSample_def setVolume_def new_AudioStream_def loopback_def Math_min_def Math_max_def
      strict_neq_def trunc_def Let_def)

theorem volume_scaling_saturates_witness:
  "\<not> isMuted (setVolume (new_AudioStream (0::nat) (0::nat) False) (Fin 2))
   \<and> strict_neq (getVolume (setVolume (new_AudioStream (0::nat) (0::nat) False) (Fin 2))) (Fin 1)
   \<and> opus_decode loopback (m_opusEncoder (setVolume (new_AudioStream (0::nat) (0::nat) False) (Fin 2)))
        [255, 127, 1, 0] = (Inr [255, 127, 1, 0], 1)
   \<and> even (length [255, 127, 1, 0 :: 8 word])
   \<and> (\<exists>pcmData'.
        length pcmData' = 4
        \<and> readInt16LE [255, 127, 1, 0] 0 = Inr 32767 \<and> readInt16LE pcmData' 0 = Inr 32767
        \<and> readInt16LE [255, 127, 1, 0] 2 = Inr 1 \<and> readInt16LE pcmData' 2 = Inr 2
        \<and> sendFrame loopback (setVolume (new_AudioStream (0::nat) (0::nat) False) (Fin 2))
              [255, 127, 1, 0] (Fin 20) =
             (Inr (),
              (setVolume (new_AudioStream 0 0 False) (Fin 2))\<lparr>m_opusEncoder := 2, udp := 1\<rparr>,
              [Decode [255, 127, 1, 0], Encode pcmData' 960, SendAudioFrame pcmData' (Fin 20)]))"
proof -
  let ?s = "setVolume (new_AudioStream (0::nat) (0::nat) False) (Fin 2)"
  have h1: "\<not> isMuted ?s"
    by (simp add: isMuted_def setVolume_def new_AudioStream_def)
  have h2: "strict_neq (getVolume ?s) (Fin 1)"
    by (simp add: getVolume_def setVolume_def new_AudioStream_def Math_min_def strict_neq_def)
  have h3: "opus_decode loopback (m_opusEncoder ?s) [255, 127, 1, 0] = (Inr [255, 127, 1, 0], 1)"
    by (simp add: loopback_def setVolume_def new_AudioStream_def)
  have h4: "even (length [255, 127, 1, 0 :: 8 word])" by simp
  have v: "getVolume ?s = Fin 2"
    by (simp add: getVolume_def setVolume_def new_AudioStream_def Math_min_def)
  have u: "udp ?s = 0" by (simp add: setVolume_def new_AudioStream_def)
  have r: "round_double loopback = Fin" by (simp add: loopback_def)
  have r0: "readInt16LE [255, 127, 1, 0] 0 = Inr 32767" by (simp add: readInt16LE_def)
  have r2: "readInt16LE [255, 127, 1, 0] 2 = Inr 1" by (simp add: readInt16LE_def)
  from volume_scaling_saturates [OF h1 h2 h3 h4, where ft = "Fin 20"]
  obtain p where len: "length p = length [255, 127, 1, 0 :: 8 word]"
    and at: "\<forall>i. even i \<and> i < length [255, 127, 1, 0 :: 8 word] \<longrightarrow>
          (\<exists>sample scaled.
             readInt16LE [255, 127, 1, 0] i = Inr sample
             \<and> readInt16LE p i = Inr scaled
             \<and> scaled = saturate16 (num_mul (round_double loopback) (Fin (of_int sample)) (getVolume ?s))
             \<and> - 32768 \<le> scaled \<and> scaled \<le> 32767)"
    and snd: "\<forall>encoded c2. opus_encode loopback 1 p 960 = (Inr encoded, c2) \<longrightarrow>
          sendFrame loopback ?s [255, 127, 1, 0] (Fin 20) =
            (fst (udp_sendAudioFrame loopback (udp ?s) encoded (Fin 20)),
             ?s\<lparr>m_opusEncoder := c2, udp := snd (udp_sendAudioFrame loopback (udp ?s) encoded (Fin 20))\<rparr>,
             [Decode [255, 127, 1, 0], Encode p 960, SendAudioFrame encoded (Fin 20)])"
    by (elim exE conjE)
  have p0: "readInt16LE p 0 = Inr 32767"
    using at[rule_format, of 0] r0 by (simp add: v r saturate16_def)
  have p2: "readInt16LE p 2 = Inr 2"
    using at[rule_format, of 2] r2 by (simp add: v r saturate16_def)
  have enc: "opus_encode loopback 1 p 960 = (Inr p, 2)" by (simp add: loopback_def)
  have sf: "sendFrame loopback ?s [255, 127, 1, 0] (Fin 20) =
             (Inr (), ?s\<lparr>m_opusEncoder := 2, udp := 1\<rparr>,
              [Decode [255, 127, 1, 0], Encode p 960, SendAudioFrame p (Fin 20)])"
    using snd[rule_format, OF enc] by (simp add: u loopback_def)
  have len4: "length p = 4" using len by simp
  have "\<exists>pcmData'.
        length pcmData' = 4
        \<and> readInt16LE [255, 127, 1, 0] 0 = Inr 32767 \<and> readInt16LE pcmData' 0 = Inr 32767
        \<and> readInt16LE [255, 127, 1, 0] 2 = Inr 1 \<and> readInt16LE pcmData' 2 = Inr 2
        \<and> sendFrame loopback ?s [255, 127, 1, 0] (Fin 20) =
             (Inr (), ?s\<lparr>m_opusEncoder := 2, udp := 1\<rparr>,
              [Decode [255, 127, 1, 0], Encode pcmData' 960, SendAudioFrame pcmData' (Fin 20)])"
    by (intro exI[of _ p] conjI len4 r0 r2 p0 p2 sf)
  then show ?thesis by (intro conjI h1 h2 h3 h4)
qed

text \<open>
  C9: when the decoder throws, or the loop throws, or the encoder throws, the value thrown
  is logged with \<open>console.error\<close> and \<open>sendAudioFrame\<close> is called once, with the frame
  as it came and the same frametime. The outcome of \<open>_sendFrame\<close> is the outcome of that
  call: it is rejected only when the transport rejects, with the transport's value.
\<close>

theorem processing_fault_forwards_original:
  assumes "\<not> isMuted s" and "strict_neq (getVolume s) (Fin 1)"
    and "(\<exists>c1. opus_decode X (m_opusEncoder s) fr = (Inl err, c1))
         \<or> (\<exists>pcmData c1. opus_decode X (m_opusEncoder s) fr = (Inr pcmData, c1)
              \<and> (scaleLoop (round_double X) (getVolume s) 0 pcmData = Inl err
                  \<or> (\<exists>pcmData' c2. scaleLoop (round_double X) (getVolume s) 0 pcmData = Inr pcmData'
                        \<and> opus_encode X c1 pcmData' 960 = (Inl err, c2))))"
  shows "\<exists>c before.
     sendFrame X s fr ft =
       (fst (udp_sendAudioFrame X (udp s) fr ft),
        s\<lparr>m_opusEncoder := c, udp := snd (udp_sendAudioFrame X (udp s) fr ft)\<rparr>,
        before @ [ConsoleError err, SendAudioFrame fr ft])
     \<and> (\<forall>x \<in> set before. x = Decode fr \<or> (\<exists>pcm. x = Encode pcm 960))"
proof -
  have "\<exists>c before. processFrame X s fr = (fr, c, before @ [ConsoleError err])
          \<and> (\<forall>x \<in> set before. x = Decode fr \<or> (\<exists>pcm. x = Encode pcm 960))"
    using assms(2,3)
  proof (elim disjE exE conjE)
    fix c1 assume "opus_decode X (m_opusEncoder s) fr = (Inl err, c1)"
    then have "processFrame X s fr = (fr, c1, [Decode fr] @ [ConsoleError err])"
      using assms(2) by (simp add: processFrame_def getVolume_def)
    then show ?thesis by fastforce
  next
    fix pcmData c1
    assume "opus_decode X (m_opusEncoder s) fr = (Inr pcmData, c1)"
      and "scaleLoop (round_double X) (getVolume s) 0 pcmData = Inl err"
    then have "processFrame X s fr = (fr, c1, [Decode fr] @ [ConsoleError err])"
      using assms(2) by (simp add: processFrame_def getVolume_def)
    then show ?thesis by fastforce
  next
    fix pcmData c1 pcmData' c2
    assume "opus_decode X (m_opusEncoder s) fr = (Inr pcmData, c1)"
      and "scaleLoop (round_double X) (getVolume s) 0 pcmData = Inr pcmData'"
      and "opus_encode X c1 pcmData' 960 = (Inl err, c2)"
    then have "processFrame X s fr = (fr, c2, [Decode fr, Encode pcmData' 960] @ [ConsoleError err])"
      using assms(2) by (simp add: processFrame_def getVolume_def)
    then show ?thesis by fastforce
  qed
  then obtain c before where p: "processFrame X s fr = (fr, c, before @ [ConsoleError err])"
    and b: "\<forall>x \<in> set before. x = Decode fr \<or> (\<exists>pcm. x = Encode pcm 960)" by blast
  have "sendFrame X s fr ft =
       (fst (udp_sendAudioFrame X (udp s) fr ft),
        s\<lparr>m_opusEncoder := c, udp := snd (udp_sendAudioFrame X (udp s) fr ft)\<rparr>,
        before @ [ConsoleError err, SendAudioFrame fr ft])"
    using assms(1) p by (simp add: sendFrame_def isMuted_def split: prod.splits)
  then show ?thesis using b by blast
qed

theorem processing_fault_forwards_original_witness:
  "\<not> isMuted (setVolume (new_AudioStream (0::nat) (0::nat) False) (Fin 2))
   \<and> strict_neq (getVolume (setVolume (new_AudioStream (0::nat) (0::nat) False) (Fin 2))) (Fin 1)
   \<and> opus_decode broken_codec (m_opusEncoder (setVolume (new_AudioStream (0::nat) (0::nat) False) (Fin 2)))
        [9, 9, 9] = (Inl (Ref 7), 1)
   \<and> (\<exists>c before.
        sendFrame broken_codec (setVolume (new_AudioStream 0 0 False) (Fin 2)) [9, 9, 9] (Fin 20) =
          (Inr (),
           (setVolume (new_AudioStream 0 0 False) (Fin 2))\<lparr>m_opusEncoder := c, udp := 1\<rparr>,
           before @ [ConsoleError (Ref 7), SendAudioFrame [9, 9, 9] (Fin 20)])
        \<and> (\<forall>x \<in> set before. x = Decode [9, 9, 9] \<or> (\<exists>pcm. x = Encode pcm 960)))"
proof -
  have h1: "\<not> isMuted (setVolume (new_AudioStream (0::nat) (0::nat) False) (Fin 2))"
    by (simp add: isMuted_def setVolume_def new_AudioStream_def)
  have h2: "strict_neq (getVolume (setVolume (new_AudioStream (0::nat) (0::nat) False) (Fin 2))) (Fin 1)"
    by (simp add: getVolume_def setVolume_def new_AudioStream_def Math_min_def strict_neq_def)
  have h3: "opus_decode broken_codec (m_opusEncoder (setVolume (new_AudioStream (0::nat) (0::nat) False) (Fin 2)))
        [9, 9, 9] = (Inl (Ref 7), 1)"
    by (simp add: broken_codec_def setVolume_def new_AudioStream_def)
  have u: "udp_sendAudioFrame broken_codec
             (udp (setVolume (new_AudioStream (0::nat) (0::nat) False) (Fin 2))) [9, 9, 9] (Fin 20)
           = (Inr (), 1)"
    by (simp add: broken_codec_def setVolume_def new_AudioStream_def)
  note inst = processing_fault_forwards_original
      [of "setVolume (new_AudioStream (0::nat) (0::nat) False) (Fin 2)" broken_codec "[9, 9, 9]"
          "Ref 7" "Fin 20", OF h1 h2, unfolded u fst_conv snd_conv]
  have concl: "\<exists>c before.
        sendFrame broken_codec (setVolume (new_AudioStream 0 0 False) (Fin 2)) [9, 9, 9] (Fin 20) =
          (Inr (),
           (setVolume (new_AudioStream 0 0 False) (Fin 2))\<lparr>m_opusEncoder := c, udp := 1\<rparr>,
           before @ [ConsoleError (Ref 7), SendAudioFrame [9, 9, 9] (Fin 20)])
        \<and> (\<forall>x \<in> set before. x = Decode [9, 9, 9] \<or> (\<exists>pcm. x = Encode pcm 960))"
    by (rule inst, rule disjI1, rule exI[of _ 1], rule h3)
  show ?thesis using h1 h2 h3 concl by (intro conjI)
qed

lemma sendFrame_keeps_controls:
  "sendFrame X s fr ft = (r, s', calls) \<Longrightarrow> m_volume s' = m_volume s \<and> m_isMuted s' = m_isMuted s"
  by (auto simp: sendFrame_def split: if_splits prod.splits)

lemma sendFrame_decodes_first:
  "\<not> m_isMuted s \<Longrightarrow> strict_neq (m_volume s) (Fin 1) \<Longrightarrow> sendFrame X s fr ft = (r, s', calls)
     \<Longrightarrow> \<exists>rest. calls = Decode fr # rest"
  by (auto simp: sendFrame_def processFrame_def split: if_splits prod.splits sum.splits)

lemma sendFrame_takes_scaling_path:
  assumes "\<not> m_isMuted s" and "strict_neq (m_volume s) (Fin 1)"
    and "sendFrame X s fr ft = (outcome, s', calls)"
  shows "takes_scaling_path X s fr ft outcome calls"
proof -
  have f1: "\<exists>rest. calls = Decode fr # rest"
    using assms by (rule sendFrame_decodes_first)
  have f2: "\<forall>err c1. opus_decode X (m_opusEncoder s) fr = (Inl err, c1) \<longrightarrow>
            calls = [Decode fr, ConsoleError err, SendAudioFrame fr ft]
            \<and> outcome = fst (udp_sendAudioFrame X (udp s) fr ft)"
    using assms by (auto simp: sendFrame_def processFrame_def split: prod.splits)
  have f3: "\<exists>pcmData'.
               length pcmData' = length pcmData
               \<and> (\<forall>i. even i \<and> i < length pcmData \<longrightarrow>
                    (\<exists>sample.
                       readInt16LE pcmData i = Inr sample
                       \<and> readInt16LE pcmData' i =
                           Inr (saturate16
                                  (num_mul (round_double X) (Fin (of_int sample)) (getVolume s)))))
               \<and> (\<forall>encoded c2. opus_encode X c1 pcmData' 960 = (Inr encoded, c2) \<longrightarrow>
                    calls = [Decode fr, Encode pcmData' 960, SendAudioFrame encoded ft]
                    \<and> outcome = fst (udp_sendAudioFrame X (udp s) encoded ft))
               \<and> (\<forall>err c2. opus_encode X c1 pcmData' 960 = (Inl err, c2) \<longrightarrow>
                    calls = [Decode fr, Encode pcmData' 960, ConsoleError err,
                             SendAudioFrame fr ft]
                    \<and> outcome = fst (udp_sendAudioFrame X (udp s) fr ft))"
    if h: "opus_decode X (m_opusEncoder s) fr = (Inr pcmData, c1) \<and> even (length pcmData)"
    for pcmData c1
  proof -
    have d: "opus_decode X (m_opusEncoder s) fr = (Inr pcmData, c1)" using h by simp
    obtain p where loop: "scaleLoop (round_double X) (m_volume s) 0 pcmData = Inr p"
      and len: "length p = length pcmData"
      and at: "\<forall>j. 0 \<le> j \<and> even (j - 0) \<and> j < length pcmData \<longrightarrow>
         (\<exists>sample. readInt16LE pcmData j = Inr sample \<and>
            readInt16LE p j =
              Inr (saturate16 (num_mul (round_double X) (Fin (of_int sample)) (m_volume s))))"
      using scaleLoop_scaled[of 0 pcmData "round_double X" "m_volume s"] h by auto
    have samples: "\<forall>i. even i \<and> i < length pcmData \<longrightarrow>
                    (\<exists>sample.
                       readInt16LE pcmData i = Inr sample
                       \<and> readInt16LE p i =
                           Inr (saturate16
                                  (num_mul (round_double X) (Fin (of_int sample)) (getVolume s))))"
      using at by (simp add: getVolume_def)
    have ok: "\<forall>encoded c2. opus_encode X c1 p 960 = (Inr encoded, c2) \<longrightarrow>
                    calls = [Decode fr, Encode p 960, SendAudioFrame encoded ft]
                    \<and> outcome = fst (udp_sendAudioFrame X (udp s) encoded ft)"
      using assms d loop by (auto simp: sendFrame_def processFrame_def split: prod.splits)
    have bad: "\<forall>err c2. opus_encode X c1 p 960 = (Inl err, c2) \<longrightarrow>
                    calls = [Decode fr, Encode p 960, ConsoleError err, SendAudioFrame fr ft]
                    \<and> outcome = fst (udp_sendAudioFrame X (udp s) fr ft)"
      using assms d loop by (auto simp: sendFrame_def processFrame_def split: prod.splits)
    show ?thesis by (rule exI[of _ p]) (intro conjI len samples ok bad)
  qed
  have f3': "\<forall>pcmData c1.
            opus_decode X (m_opusEncoder s) fr = (Inr pcmData, c1) \<and> even (length pcmData) \<longrightarrow>
            (\<exists>pcmData'.
               length pcmData' = length pcmData
               \<and> (\<forall>i. even i \<and> i < length pcmData \<longrightarrow>
                    (\<exists>sample.
                       readInt16LE pcmData i = Inr sample
                       \<and> readInt16LE pcmData' i =
                           Inr (saturate16
                                  (num_mul (round_double X) (Fin (of_int sample)) (getVolume s)))))
               \<and> (\<forall>encoded c2. opus_encode X c1 pcmData' 960 = (Inr encoded, c2) \<longrightarrow>
                    calls = [Decode fr, Encode pcmData' 960, SendAudioFrame encoded ft]
                    \<and> outcome = fst (udp_sendAudioFrame X (udp s) encoded ft))
               \<and> (\<forall>err c2. opus_encode X c1 pcmData' 960 = (Inl err, c2) \<longrightarrow>
                    calls = [Decode fr, Encode pcmData' 960, ConsoleError err,
                             SendAudioFrame fr ft]
                    \<and> outcome = fst (udp_sendAudioFrame X (udp s) fr ft)))"
    by (intro allI impI) (rule f3)
  show ?thesis unfolding takes_scaling_path_def
    by (rule conjI[OF f1 conjI[OF f2 f3']])
qed

lemma sendFrames_scaling_each:
  "\<not> m_isMuted s \<Longrightarrow> m_volume s = NaN \<Longrightarrow>
     list_all2 (\<lambda>(fr, ft) (s', outcome, calls).
                  getVolume s' = NaN \<and> \<not> isMuted s'
                  \<and> takes_scaling_path X s' fr ft outcome calls)
       frames (sendFrames X s frames)"
proof (induction frames arbitrary: s)
  case Nil
  then show ?case by simp
next
  case (Cons a frames)
  obtain fr ft where a: "a = (fr, ft)" by (cases a)
  obtain r s' calls where sf: "sendFrame X s fr ft = (r, s', calls)" by (cases "sendFrame X s fr ft")
  have ne: "strict_neq (m_volume s) (Fin 1)" using Cons.prems by (simp add: strict_neq_def)
  have keep: "\<not> m_isMuted s'" "m_volume s' = NaN"
    using sendFrame_keeps_controls[OF sf] Cons.prems by simp_all
  have here: "takes_scaling_path X s fr ft r calls"
    using Cons.prems(1) ne sf by (rule sendFrame_takes_scaling_path)
  show ?case
    using here Cons.prems Cons.IH[OF keep] by (simp add: a sf getVolume_def isMuted_def)
qed

text \<open>
  C10: \<open>setVolume(NaN)\<close> stores NaN, which is not in \<open>[0, 2]\<close>; \<open>getVolume()\<close> returns NaN
  and NaN differs from 1.0. So for every sequence of frames sent afterwards through an
  unmuted stream, each \<open>_sendFrame\<close> finds the volume still NaN and takes the decode,
  scale and re-encode path: its frame is decoded, every sample of the decoded buffer is
  replaced by the saturating conversion of the sample times the volume (0, the volume
  being NaN), the buffer is encoded and the encoded buffer is sent; on a throw of the
  codec the frame is sent as it came.
\<close>

theorem setVolume_NaN_stored:
  "getVolume (setVolume s NaN) = NaN
   \<and> \<not> (num_le (Fin 0) (getVolume (setVolume s NaN)) \<and> num_le (getVolume (setVolume s NaN)) (Fin 2))
   \<and> strict_neq (getVolume (setVolume s NaN)) (Fin 1)
   \<and> (\<not> isMuted s \<longrightarrow>
        list_all2 (\<lambda>(fr, ft) (s', outcome, calls).
                     getVolume s' = NaN \<and> \<not> isMuted s'
                     \<and> takes_scaling_path X s' fr ft outcome calls)
          frames (sendFrames X (setVolume s NaN) frames))"
proof -
  have v: "m_volume (setVolume s NaN) = NaN" "m_isMuted (setVolume s NaN) = m_isMuted s"
    by (simp_all add: setVolume_def Math_min_def)
  have "list_all2 (\<lambda>(fr, ft) (s', outcome, calls).
                     getVolume s' = NaN \<and> \<not> isMuted s'
                     \<and> takes_scaling_path X s' fr ft outcome calls)
          frames (sendFrames X (setVolume s NaN) frames)" if "\<not> isMuted s"
    using that by (intro sendFrames_scaling_each) (simp_all add: v isMuted_def)
  then show ?thesis by (simp add: getVolume_def v num_le_def strict_neq_def)
qed

lemma scaleLoop_NaN_example: "scaleLoop Fin NaN 0 [x, 0] = Inr [0, 0]"
  by (simp add: scaleLoop.simps newSample_def Math_min_def Math_max_def writeInt16LE_def
      readInt16LE_def Let_def)

lemma sendFrame_NaN_example:
  "m_isMuted s = False \<Longrightarrow> m_volume s = NaN \<Longrightarrow>
   sendFrame loopback s [x, 0] (Fin 20) =
     (Inr (), s\<lparr>m_opusEncoder := m_opusEncoder s + 2, udp := udp s + 1\<rparr>,
      [Decode [x, 0], Encode [0, 0] 960, SendAudioFrame [0, 0] (Fin 20)])"
  by (simp add: sendFrame_def processFrame_def scaleLoop_NaN_example loopback_def strict_neq_def)

lemma sendFrames_NaN_example:
  "map (\<lambda>(s', outcome, calls). calls)
     (sendFrames loopback (setVolume (new_AudioStream 0 0 False) NaN)
        [([1, 0], Fin 20), ([2, 0], Fin 20)])
       = [[Decode [1, 0], Encode [0, 0] 960, SendAudioFrame [0, 0] (Fin 20)],
          [Decode [2, 0], Encode [0, 0] 960, SendAudioFrame [0, 0] (Fin 20)]]"
  by (simp add: sendFrame_NaN_example setVolume_def new_AudioStream_def Math_min_def)

theorem setVolume_NaN_stored_witness:
  "\<not> isMuted (new_AudioStream (0::nat) (0::nat) False)
   \<and> (\<exists>pcmData'.
        length pcmData' = 2
        \<and> readInt16LE [1, 0] 0 = Inr 1
        \<and> readInt16LE pcmData' 0 = Inr 0
        \<and> map (\<lambda>(s', outcome, calls). calls)
             (sendFrames loopback (setVolume (new_AudioStream (0::nat) (0::nat) False) NaN)
                [([1, 0], Fin 20)])
            = [[Decode [1, 0], Encode pcmData' 960, SendAudioFrame pcmData' (Fin 20)]])"
proof -
  let ?s0 = "new_AudioStream (0::nat) (0::nat) False"
  let ?s1 = "setVolume ?s0 NaN"
  have h: "\<not> isMuted ?s0" by (simp add: isMuted_def new_AudioStream_def)
  obtain outcome s2 calls where sf: "sendFrame loopback ?s1 [1, 0] (Fin 20) = (outcome, s2, calls)"
    by (cases "sendFrame loopback ?s1 [1, 0] (Fin 20)")
  have run: "sendFrames loopback ?s1 [([1, 0], Fin 20)] = [(?s1, outcome, calls)]"
    by (simp add: sf)
  from setVolume_NaN_stored [where s = ?s0 and frames = "[([1, 0], Fin 20)]" and X = loopback] h
  have "list_all2 (\<lambda>(fr, ft) (s', outcome, calls).
                     getVolume s' = NaN \<and> \<not> isMuted s'
                     \<and> takes_scaling_path loopback s' fr ft outcome calls)
          [([1, 0], Fin 20)] (sendFrames loopback ?s1 [([1, 0], Fin 20)])"
    by (elim conjE impE)
  then have v: "getVolume ?s1 = NaN"
    and path: "takes_scaling_path loopback ?s1 [1, 0] (Fin 20) outcome calls"
    unfolding run by simp_all
  have d: "opus_decode loopback (m_opusEncoder ?s1) [1, 0] = (Inr [1, 0], 1)
           \<and> even (length [1, 0 :: 8 word])"
    by (simp add: loopback_def setVolume_def new_AudioStream_def)
  from path[unfolded takes_scaling_path_def, THEN conjunct2, THEN conjunct2, rule_format, OF d]
  obtain p where len: "length p = length [1, 0 :: 8 word]"
    and at: "\<forall>i. even i \<and> i < length [1, 0 :: 8 word] \<longrightarrow>
               (\<exists>sample.
                  readInt16LE [1, 0] i = Inr sample
                  \<and> readInt16LE p i =
                      Inr (saturate16
                             (num_mul (round_double loopback) (Fin (of_int sample)) (getVolume ?s1))))"
    and ok: "\<forall>encoded c2. opus_encode loopback 1 p 960 = (Inr encoded, c2) \<longrightarrow>
               calls = [Decode [1, 0], Encode p 960, SendAudioFrame encoded (Fin 20)]
               \<and> outcome = fst (udp_sendAudioFrame loopback (udp ?s1) encoded (Fin 20))"
    by (elim exE conjE)
  have r0: "readInt16LE [1, 0] 0 = Inr 1" by (simp add: readInt16LE_def)
  have p0: "readInt16LE p 0 = Inr 0"
    using at[rule_format, of 0] r0 by (simp add: v saturate16_def)
  have enc: "opus_encode loopback 1 p 960 = (Inr p, 2)" by (simp add: loopback_def)
  have c: "calls = [Decode [1, 0], Encode p 960, SendAudioFrame p (Fin 20)]"
    using ok[rule_format, OF enc] by simp
  have len2: "length p = 2" using len by simp
  have m: "map (\<lambda>(s', outcome, calls). calls) (sendFrames loopback ?s1 [([1, 0], Fin 20)])
             = [[Decode [1, 0], Encode p 960, SendAudioFrame p (Fin 20)]]"
    unfolding run using c by simp
  have "\<exists>pcmData'.
        length pcmData' = 2
        \<and> readInt16LE [1, 0] 0 = Inr 1
        \<and> readInt16LE pcmData' 0 = Inr 0
        \<and> map (\<lambda>(s', outcome, calls). calls) (sendFrames loopback ?s1 [([1, 0], Fin 20)])
            = [[Decode [1, 0], Encode pcmData' 960, SendAudioFrame pcmData' (Fin 20)]]"
    by (intro exI[of _ p] conjI len2 r0 p0 m)
  then show ?thesis by (intro conjI h)
qed

section \<open>Properties of the session\<close>

lemma run_Nil [simp]: "run rd s [] = s"
  by (simp add: run_def)

lemma run_Cons [simp]: "run rd s (e # es) = run rd (step rd s e) es"
  by (simp add: run_def)

lemma run_append: "run rd s (xs @ ys) = run rd (run rd s xs) ys"
  by (simp add: run_def)

lemma live_playStream: "fresh c \<Longrightarrow> live c (playStream c)"
  by (auto simp: fresh_def live_def playStream_def signal_aborted_def signal_reason_def
      split: option.splits)

lemma stopBurst_keeps:
  "cancelSignal (stopBurst rd bt s t) = cancelSignal s"
  "cleanedUp (stopBurst rd bt s t) = cleanedUp s"
  "promise (stopBurst rd bt s t) = promise s"
  "streamPromise (stopBurst rd bt s t) = streamPromise s"
  "called (stopBurst rd bt s t) = called s"
  "errorLog (stopBurst rd bt s t) = errorLog s"
  "finishListener (stopBurst rd bt s t) = finishListener s"
  "videoErrorListener (stopBurst rd bt s t) = videoErrorListener s"
  "audioErrorListener (stopBurst rd bt s t) = audioErrorListener s"
  "abortListener (stopBurst rd bt s t) = abortListener s"
  "cleanupFuncs (stopBurst rd bt s t) = cleanupFuncs s"
  "previewPending (stopBurst rd bt s t) = previewPending s"
  by (simp_all add: stopBurst_def Let_def)

lemma live_step: "live c s \<Longrightarrow> \<not> terminal c e \<Longrightarrow> live c (step rd s e)"
proof (cases e)
  case (Abort r)
  assume "live c s" "\<not> terminal c e"
  then show ?thesis using Abort by (simp add: live_def)
next
  case (AudioError err)
  assume "live c s" "\<not> terminal c e"
  then show ?thesis using AudioError by (simp add: live_def)
next
  case (Pts t)
  assume "live c s" "\<not> terminal c e"
  then show ?thesis using Pts
    by (auto simp: live_def stopBurst_keeps signal_aborted_def signal_reason_def split: option.splits)
next
  case DecoderReady
  assume "live c s" "\<not> terminal c e"
  then show ?thesis using DecoderReady
    by (auto simp: live_def signal_aborted_def signal_reason_def)
next
  case Microtask
  assume "live c s" "\<not> terminal c e"
  then show ?thesis using Microtask by (simp add: live_def)
qed simp_all

lemma live_run: "live c s \<Longrightarrow> \<forall>e \<in> set es. \<not> terminal c e \<Longrightarrow> live c (run rd s es)"
  by (induction es arbitrary: s) (simp_all add: live_step)

lemma settled_step:
  "settled s \<Longrightarrow>
     settled (step rd s e) \<and> called (step rd s e) = called s
     \<and> promise (step rd s e) = promise s"
  by (cases e)
     (auto simp: settled_def cleanup_def reject_def resolve_def catch_handler_def Let_def
           stopBurst_keeps split: option.splits promise.splits)

lemma settled_run:
  "settled s \<Longrightarrow>
     settled (run rd s es) \<and> called (run rd s es) = called s
     \<and> promise (run rd s es) = promise s"
proof (induction es arbitrary: s)
  case Nil
  then show ?case by simp
next
  case (Cons e es)
  from settled_step[OF Cons.prems, of rd e] Cons.IH[of "step rd s e"]
  show ?case by simp
qed

lemma live_terminal:
  assumes "live c s" "terminal c e"
  shows "settled (step rd s e)"
    and "called (step rd s e) = cleanupFuncs s"
    and "streamPromise (step rd s e) = Pending"
    and "e = Finish \<Longrightarrow> promise (step rd s e) = Fulfilled"
    and "e = Abort r \<Longrightarrow>
           promise (step rd s e) = Rejected (if r = Undefined then AbortError else r)
           \<and> signal_aborted (step rd s e)
           \<and> signal_reason (step rd s e) = (if r = Undefined then AbortError else r)"
    and "e = VideoError err \<or> e = AudioError err \<Longrightarrow>
           promise (step rd s e) = Rejected err \<and> cancelSignal (step rd s e) = cancelSignal s"
proof -
  show "settled (step rd s e)" using assms
    by (cases e)
       (auto simp: live_def settled_def cleanup_def reject_def resolve_def Let_def
             signal_aborted_def signal_reason_def split: option.splits)
  show "called (step rd s e) = cleanupFuncs s" using assms
    by (cases e)
       (auto simp: live_def cleanup_def reject_def resolve_def Let_def
             signal_aborted_def signal_reason_def split: option.splits)
  show "streamPromise (step rd s e) = Pending" using assms
    by (cases e)
       (auto simp: live_def cleanup_def reject_def resolve_def Let_def
             signal_aborted_def signal_reason_def split: option.splits)
  show "e = Finish \<Longrightarrow> promise (step rd s e) = Fulfilled"
    using assms
    by (auto simp: live_def cleanup_def resolve_def Let_def signal_aborted_def split: option.splits)
  show "e = Abort r \<Longrightarrow>
           promise (step rd s e) = Rejected (if r = Undefined then AbortError else r)
           \<and> signal_aborted (step rd s e)
           \<and> signal_reason (step rd s e) = (if r = Undefined then AbortError else r)"
    using assms
    by (auto simp: live_def cleanup_def reject_def Let_def signal_aborted_def signal_reason_def
             split: option.splits)
  show "e = VideoError err \<or> e = AudioError err \<Longrightarrow>
           promise (step rd s e) = Rejected err \<and> cancelSignal (step rd s e) = cancelSignal s"
    using assms
    by (auto simp: live_def cleanup_def reject_def Let_def signal_aborted_def signal_reason_def
             split: option.splits)
qed

lemma kept_signal [simp]:
  "cancelSignal (cleanup s) = cancelSignal s" "cancelSignal (resolve s) = cancelSignal s"
  "cancelSignal (reject s err) = cancelSignal s" "cancelSignal (catch_handler s err) = cancelSignal s"
  by (simp_all add: cleanup_def resolve_def reject_def catch_handler_def)

lemma kept_done [simp]:
  "streamPromise (cleanup s) = streamPromise s" "streamPromise (resolve s) = streamPromise s"
  "streamPromise (reject s err) = streamPromise s"
  by (simp_all add: cleanup_def resolve_def reject_def)

lemma quiet_step: "e \<noteq> Microtask \<Longrightarrow> streamPromise (step rd s e) = streamPromise s"
  by (cases e) (simp_all add: Let_def stopBurst_keeps split: option.splits)

lemma quiet_run: "Microtask \<notin> set es \<Longrightarrow> streamPromise (run rd s es) = streamPromise s"
proof (induction es arbitrary: s)
  case Nil
  then show ?case by simp
next
  case (Cons e es)
  have "e \<noteq> Microtask" using Cons.prems by auto
  then have "streamPromise (step rd s e) = streamPromise s" by (rule quiet_step)
  moreover have "streamPromise (run rd (step rd s e) es) = streamPromise (step rd s e)"
    using Cons.prems by (intro Cons.IH) auto
  ultimately show ?case by simp
qed

lemma done_step: "streamPromise s \<noteq> Pending \<Longrightarrow> streamPromise (step rd s e) = streamPromise s"
  by (cases e) (simp_all add: Let_def stopBurst_keeps split: option.splits)

lemma done_run: "streamPromise s \<noteq> Pending \<Longrightarrow> streamPromise (run rd s es) = streamPromise s"
  by (induction es arbitrary: s) (simp_all add: done_step)

lemma no_abort_step: "\<forall>r. e \<noteq> Abort r \<Longrightarrow> cancelSignal (step rd s e) = cancelSignal s"
  by (cases e) (simp_all add: Let_def stopBurst_keeps split: option.splits promise.splits)

lemma no_abort_run: "\<forall>r. Abort r \<notin> set es \<Longrightarrow> cancelSignal (run rd s es) = cancelSignal s"
proof (induction es arbitrary: s)
  case Nil
  then show ?case by simp
next
  case (Cons e es)
  have "\<forall>r. e \<noteq> Abort r" using Cons.prems by auto
  then have "cancelSignal (step rd s e) = cancelSignal s" by (rule no_abort_step)
  moreover have "cancelSignal (run rd (step rd s e) es) = cancelSignal (step rd s e)"
    using Cons.prems by (intro Cons.IH) auto
  ultimately show ?case by simp
qed

lemma aborted_step: "signal_aborted s \<Longrightarrow> cancelSignal (step rd s e) = cancelSignal s"
  by (cases e)
     (auto simp: signal_aborted_def Let_def stopBurst_keeps split: option.splits promise.splits)

lemma aborted_run: "signal_aborted s \<Longrightarrow> cancelSignal (run rd s es) = cancelSignal s"
proof (induction es arbitrary: s)
  case Nil
  then show ?case by simp
next
  case (Cons e es)
  have k: "cancelSignal (step rd s e) = cancelSignal s" using Cons.prems by (rule aborted_step)
  then have "signal_aborted (step rd s e)" using Cons.prems by (simp add: signal_aborted_def)
  then show ?case using Cons.IH k by simp
qed

lemma abort_step:
  "cancelSignal s = Some sg \<Longrightarrow> \<not> aborted sg \<Longrightarrow>
     cancelSignal (step rd s (Abort r))
       = Some (sg\<lparr>aborted := True, reason := (if r = Undefined then AbortError else r)\<rparr>)"
  by (simp add: Let_def)

lemma neq_undefined: "val_strict_neq err Undefined = (err \<noteq> Undefined)"
  by (cases err) simp_all

lemma neq_itself: "val_strict_neq x x = (x = Num NaN)"
  by (cases x) (simp_all add: strict_neq_def)

lemma handler_runs:
  assumes "settled s" and "streamPromise s = Pending" and "Microtask \<notin> set turn"
  shows "streamPromise (run rd s (turn @ Microtask # rest)) =
           (case promise s of
              Rejected err \<Rightarrow>
                (if val_strict_neq err (signal_reason (run rd s turn)) then Rejected err
                 else Fulfilled)
            | _ \<Rightarrow> Fulfilled)"
proof -
  let ?s1 = "run rd s turn"
  have k: "settled ?s1" "promise ?s1 = promise s" using settled_run[OF assms(1), of rd turn] by simp_all
  have p: "streamPromise ?s1 = Pending" using quiet_run[OF assms(3), of rd s] assms(2) by simp
  have np: "promise s \<noteq> Pending" using assms(1) by (simp add: settled_def)
  have h: "streamPromise (step rd ?s1 Microtask) =
           (case promise s of
              Rejected err \<Rightarrow>
                (if val_strict_neq err (signal_reason ?s1) then Rejected err else Fulfilled)
            | _ \<Rightarrow> Fulfilled)"
    using k p np by (cases "promise s") (simp_all add: catch_handler_def)
  then have "streamPromise (step rd ?s1 Microtask) \<noteq> Pending"
    by (cases "promise s") (simp_all split: if_splits)
  then have "streamPromise (run rd (step rd ?s1 Microtask) rest) = streamPromise (step rd ?s1 Microtask)"
    by (rule done_run)
  then show ?thesis using h by (simp add: run_append)
qed

lemma kept_cleanup [simp]:
  "vSync (cleanup s) = vSync s" "vNoSleep (cleanup s) = vNoSleep s"
  "aNoSleep (cleanup s) = aNoSleep s" "ptsListener (cleanup s) = ptsListener s"
  "burstStopped (cleanup s) = burstStopped s" "burstTime (cleanup s) = burstTime s"
  "hasAudio (cleanup s) = hasAudio s"
  by (simp_all add: cleanup_def)

lemma kept_resolve [simp]:
  "vSync (resolve s) = vSync s" "vNoSleep (resolve s) = vNoSleep s"
  "aNoSleep (resolve s) = aNoSleep s" "ptsListener (resolve s) = ptsListener s"
  "burstStopped (resolve s) = burstStopped s" "burstTime (resolve s) = burstTime s"
  "hasAudio (resolve s) = hasAudio s"
  by (simp_all add: resolve_def)

lemma kept_reject [simp]:
  "vSync (reject s err) = vSync s" "vNoSleep (reject s err) = vNoSleep s"
  "aNoSleep (reject s err) = aNoSleep s" "ptsListener (reject s err) = ptsListener s"
  "burstStopped (reject s err) = burstStopped s" "burstTime (reject s err) = burstTime s"
  "hasAudio (reject s err) = hasAudio s"
  by (simp_all add: reject_def)

lemma kept_catch_handler [simp]:
  "vSync (catch_handler s err) = vSync s" "vNoSleep (catch_handler s err) = vNoSleep s"
  "aNoSleep (catch_handler s err) = aNoSleep s" "ptsListener (catch_handler s err) = ptsListener s"
  "burstStopped (catch_handler s err) = burstStopped s" "burstTime (catch_handler s err) = burstTime s"
  "hasAudio (catch_handler s err) = hasAudio s"
  by (simp_all add: catch_handler_def)



lemma burst_kept_off:
  "\<not> ptsListener s \<Longrightarrow> burst_flags (step rd s e) = burst_flags s"
  by (cases e) (simp_all add: Let_def burst_flags_def split: option.splits promise.splits)

lemma burst_kept_off_run:
  "\<not> ptsListener s \<Longrightarrow> burst_flags (run rd s es) = burst_flags s"
proof (induction es arbitrary: s)
  case Nil
  then show ?case by simp
next
  case (Cons e es)
  have k: "burst_flags (step rd s e) = burst_flags s" using Cons.prems by (rule burst_kept_off)
  then have "\<not> ptsListener (step rd s e)" using Cons.prems by (simp add: burst_flags_def)
  then show ?case using Cons.IH k by simp
qed



lemma burst_not_armed_without_audio:
  assumes "\<not> audio c"
  shows "burst_flags (run rd (playStream c) es) = (sync0 c, noSleep0 c, False, False, [])"
proof -
  have "\<not> ptsListener (playStream c)" using assms by (simp add: playStream_def armed_def)
  then have "burst_flags (run rd (playStream c) es) = burst_flags (playStream c)"
    by (rule burst_kept_off_run)
  then show ?thesis using assms by (simp add: burst_flags_def playStream_def armed_def)
qed


lemma distinct_count_le_1: "distinct xs \<Longrightarrow> count_list xs x \<le> 1"
  by (induction xs) (auto simp: count_list_0_iff)

lemma tidy_playStream: "tidy (playStream c)"
  by (simp add: tidy_def playStream_def)

lemma tidy_step: "tidy s \<Longrightarrow> tidy (step rd s e)"
  by (cases e)
     (auto simp: tidy_def cleanup_def reject_def resolve_def catch_handler_def Let_def
           stopBurst_keeps split: option.splits promise.splits)

lemma tidy_run: "tidy s \<Longrightarrow> tidy (run rd s es)"
  by (induction es arbitrary: s) (simp_all add: tidy_step)

lemma cleanup_at_most_once: "count_list (called (run rd (playStream c) es)) f \<le> 1"
proof -
  have "distinct (called (run rd (playStream c) es))"
    using tidy_run[OF tidy_playStream, of rd c es] by (simp add: tidy_def)
  then show ?thesis by (rule distinct_count_le_1)
qed

lemma stuck_step: "stuck s \<Longrightarrow> stuck (step rd s e)"
  by (cases e)
     (auto simp: stuck_def signal_aborted_def Let_def stopBurst_keeps
           split: option.splits promise.splits)

lemma stuck_run: "stuck s \<Longrightarrow> stuck (run rd s es)"
  by (induction es arbitrary: s) (simp_all add: stuck_step)

lemma aborted_in_setup_never_cleans:
  assumes "signal c = Some sg" and "aborted sg"
  shows "called (run rd (playStream c) es) = []
         \<and> promise (run rd (playStream c) es) = Pending
         \<and> streamPromise (run rd (playStream c) es) = Pending"
proof -
  have "stuck (playStream c)" using assms by (simp add: stuck_def playStream_def signal_aborted_def)
  then have "stuck (run rd (playStream c) es)" by (rule stuck_run)
  then show ?thesis by (simp add: stuck_def)
qed

lemma first_terminal:
  assumes "fresh c" and "\<forall>x \<in> set pre. \<not> terminal c x" and "terminal c e"
  shows "live c (run rd (playStream c) pre)"
    and "called (run rd (playStream c) (pre @ e # rest)) = cleanupFuncs (run rd (playStream c) pre)"
    and "promise (run rd (playStream c) (pre @ e # rest))
           = promise (step rd (run rd (playStream c) pre) e)"
proof -
  let ?s = "run rd (playStream c) pre"
  show l: "live c ?s" using assms(1,2) by (intro live_run live_playStream)
  have r: "run rd (playStream c) (pre @ e # rest) = run rd (step rd ?s e) rest"
    by (simp add: run_append)
  note t = live_terminal[OF l assms(3), where rd = rd]
  note k = settled_run[OF t(1), of rd rest]
  show "called (run rd (playStream c) (pre @ e # rest)) = cleanupFuncs ?s"
    unfolding r using k t(2) by simp
  show "promise (run rd (playStream c) (pre @ e # rest)) = promise (step rd ?s e)"
    unfolding r using k by simp
qed

lemma reason_unchanged:
  "\<forall>a. Abort a \<notin> set es \<Longrightarrow> signal_reason (run rd s es) = signal_reason s"
  using no_abort_run[of es rd s] by (simp add: signal_reason_def)

lemma reason_aborted:
  "signal_aborted s \<Longrightarrow> signal_reason (run rd s es) = signal_reason s"
  using aborted_run[of s rd es] by (simp add: signal_reason_def)

lemma reason_after_abort:
  assumes "cancelSignal s = Some sg" and "\<not> aborted sg" and "\<forall>b. Abort b \<notin> set t1"
  shows "signal_reason (run rd s (t1 @ Abort a # t2)) = (if a = Undefined then AbortError else a)"
proof -
  let ?s1 = "run rd s t1"
  let ?s2 = "step rd ?s1 (Abort a)"
  have "cancelSignal ?s1 = Some sg" using no_abort_run[OF assms(3), of rd s] assms(1) by simp
  then have c: "cancelSignal ?s2
      = Some (sg\<lparr>aborted := True, reason := (if a = Undefined then AbortError else a)\<rparr>)"
    using assms(2) by (rule abort_step)
  then have ab: "signal_aborted ?s2" by (simp add: signal_aborted_def)
  have "signal_reason (run rd ?s2 t2) = signal_reason ?s2" using ab by (rule reason_aborted)
  also have "\<dots> = (if a = Undefined then AbortError else a)"
    using c by (simp add: signal_reason_def)
  finally show ?thesis by (simp add: run_append)
qed

lemma cleanup_exactly_once:
  assumes "fresh c" and "\<forall>x \<in> set pre. \<not> terminal c x" and "terminal c e"
    and "f \<in> set (cleanupFuncs (run rd (playStream c) pre))"
  shows "count_list (called (run rd (playStream c) (pre @ e # rest))) f = 1"
proof -
  have "f \<in> set (called (run rd (playStream c) (pre @ e # rest)))"
    using first_terminal(2)[OF assms(1-3), where rd = rd and rest = rest] assms(4) by simp
  then have "count_list (called (run rd (playStream c) (pre @ e # rest))) f \<noteq> 0"
    by (simp add: count_list_0_iff)
  then show ?thesis
    using cleanup_at_most_once[of rd c "pre @ e # rest" f] by simp
qed

lemma preview_cleanup_registered_late:
  "cleanupFuncs (run Fin (playStream demo) [Finish, DecoderReady])
     = [TransportCleanup, FreeDecoder, OffData]
   \<and> called (run Fin (playStream demo) [Finish, DecoderReady]) = [TransportCleanup]"
  by (simp add: demo_def playStream_def armed_def signal_aborted_def cleanup_def resolve_def Let_def)

text \<open>
  C2: a cleanup function is never called twice (\<open>cleanup_at_most_once\<close>), and when the
  signal is not aborted at the registration of the listeners, every function registered
  when the first terminal trigger fires is called exactly once
  (\<open>cleanup_exactly_once\<close>). But a signal aborted during the setup of \<open>playStream\<close>
  never reaches the abort listener, and the \<open>finish\<close> and \<open>error\<close> handlers return at
  once because the signal is aborted: when the video stream then finishes, no cleanup
  function has been called and the completion promise is still pending
  (\<open>aborted_in_setup_never_cleans\<close> for every sequence of events). A function
  registered after the cleanup has run, as the two of the preview can be, is not called
  either (\<open>preview_cleanup_registered_late\<close>).
\<close>

theorem cleanup_skipped_when_aborted_in_setup:
  "called (run Fin (playStream aborted_in_setup) [Finish]) = []
   \<and> effects (run Fin (playStream aborted_in_setup) [Finish]) = []
   \<and> promise (run Fin (playStream aborted_in_setup) [Finish]) = Pending
   \<and> streamPromise (run Fin (playStream aborted_in_setup) [Finish]) = Pending
   \<and> streamPromise (run Fin (playStream aborted_in_setup) [Finish, Microtask]) = Pending"
  by (simp add: aborted_in_setup_def demo_def playStream_def armed_def signal_aborted_def
      effects_def Let_def)

text \<open>
  C1, as stated, fails, at two places. When the signal is aborted with reason \<open>Ref 1\<close>,
  the promise of the executor is rejected with that reason, and the \<open>catch\<close> handler,
  finding \<open>err === cancelSignal.reason\<close>, returns: \<open>done\<close> is fulfilled, as on a normal
  finish. And when the audio stream (the paced stream, not the audio input) errors,
  nothing of the session is called: the promise and \<open>done\<close> stay pending.
\<close>

theorem cancellation_resolves_done:
  "promise (run Fin (playStream demo) [Abort (Ref 1), Microtask]) = Rejected (Ref 1)
   \<and> streamPromise (run Fin (playStream demo) [Abort (Ref 1), Microtask]) = Fulfilled
   \<and> streamPromise (run Fin (playStream demo) [Abort (Ref 1), Microtask]) \<noteq> Rejected (Ref 1)
   \<and> promise (run Fin (playStream demo) [AudioStreamError (Ref 2), Microtask]) = Pending
   \<and> streamPromise (run Fin (playStream demo) [AudioStreamError (Ref 2), Microtask]) = Pending
   \<and> streamPromise (run Fin (playStream demo) [AudioStreamError (Ref 2), Microtask])
        \<noteq> Rejected (Ref 2)"
  by (simp add: demo_def playStream_def armed_def signal_aborted_def signal_reason_def
      cleanup_def reject_def catch_handler_def Let_def)

text \<open>
  C1, amended: for a session whose signal is not aborted when the listeners are
  registered, \<open>done\<close> is pending until a terminal trigger fires (an error of the audio
  stream itself is none), and it is settled by the reaction that runs after the turn of
  the first terminal trigger; nothing that follows changes it. A \<open>finish\<close> of the video
  stream fulfils it. An abort of the signal rejects the promise of the executor with the
  reason of the signal and fulfils \<open>done\<close> (the reason not being NaN, which differs from
  itself). An error of the video stream, or of the audio input when there is one,
  rejects \<open>done\<close> with that error (the error not being \<open>undefined\<close>) when the signal is
  not aborted in the same turn; when it is, the handler compares the error with the
  reason of that abort, and \<open>done\<close> is rejected with the error unless the two are the
  same value.
\<close>

theorem completion_outcomes:
  assumes "fresh c" and "\<forall>x \<in> set pre. \<not> terminal c x" and "Microtask \<notin> set turn"
  shows "streamPromise (run rd (playStream c) pre) = Pending
     \<and> streamPromise (run rd (playStream c) (pre @ Finish # turn @ Microtask # rest)) = Fulfilled
     \<and> (signal c \<noteq> None \<and> r \<noteq> Num NaN \<longrightarrow>
          promise (run rd (playStream c) (pre @ Abort r # turn @ Microtask # rest))
            = Rejected (if r = Undefined then AbortError else r)
          \<and> streamPromise (run rd (playStream c) (pre @ Abort r # turn @ Microtask # rest))
              = Fulfilled)
     \<and> ((e = VideoError err \<or> e = AudioError err \<and> audio c) \<and> err \<noteq> Undefined
          \<and> (\<forall>a. Abort a \<notin> set turn) \<longrightarrow>
          streamPromise (run rd (playStream c) (pre @ e # turn @ Microtask # rest)) = Rejected err)
     \<and> ((e = VideoError err \<or> e = AudioError err \<and> audio c) \<and> signal c \<noteq> None
          \<and> turn = t1 @ Abort a # t2 \<and> (\<forall>b. Abort b \<notin> set t1) \<longrightarrow>
          streamPromise (run rd (playStream c) (pre @ e # turn @ Microtask # rest)) =
            (if val_strict_neq err (if a = Undefined then AbortError else a) then Rejected err
             else Fulfilled))"
proof -
  let ?s = "run rd (playStream c) pre"
  have l: "live c ?s" using assms(1,2) by (intro live_run live_playStream)
  have pending: "streamPromise ?s = Pending" using l by (simp add: live_def)
  have split: "run rd (playStream c) (pre @ x # turn @ Microtask # rest)
                 = run rd (step rd ?s x) (turn @ Microtask # rest)" for x
    by (simp add: run_append)
  have outcome: "streamPromise (run rd (playStream c) (pre @ x # turn @ Microtask # rest)) =
           (case promise (step rd ?s x) of
              Rejected err \<Rightarrow>
                (if val_strict_neq err (signal_reason (run rd (step rd ?s x) turn))
                 then Rejected err else Fulfilled)
            | _ \<Rightarrow> Fulfilled)" if "terminal c x" for x
    unfolding split
    using live_terminal(1,3)[OF l that, where rd = rd] assms(3) by (intro handler_runs)
  have fin: "streamPromise (run rd (playStream c) (pre @ Finish # turn @ Microtask # rest)) = Fulfilled"
    using outcome[of Finish] live_terminal(4)[OF l, where e = Finish and rd = rd] by simp
  have ab: "promise (run rd (playStream c) (pre @ Abort r # turn @ Microtask # rest))
            = Rejected (if r = Undefined then AbortError else r)
          \<and> streamPromise (run rd (playStream c) (pre @ Abort r # turn @ Microtask # rest))
              = Fulfilled"
    if h: "signal c \<noteq> None" "r \<noteq> Num NaN"
  proof -
    let ?r = "if r = Undefined then AbortError else r"
    have t: "terminal c (Abort r)" using h by simp
    note a = live_terminal(5)[OF l t, where r = r and rd = rd, OF refl]
    have "signal_reason (run rd (step rd ?s (Abort r)) turn) = ?r"
      using a reason_aborted[of "step rd ?s (Abort r)" rd turn] by simp
    moreover have "\<not> val_strict_neq ?r ?r" using h(2) by (simp add: neq_itself)
    ultimately have "streamPromise (run rd (playStream c) (pre @ Abort r # turn @ Microtask # rest))
              = Fulfilled"
      using outcome[OF t] a by simp
    moreover have "promise (run rd (playStream c) (pre @ Abort r # turn @ Microtask # rest)) = Rejected ?r"
      using first_terminal(3)[OF assms(1,2) t, where rd = rd and rest = "turn @ Microtask # rest"] a
      by simp
    ultimately show ?thesis by simp
  qed
  have er: "terminal c e \<and> promise (step rd ?s e) = Rejected err
            \<and> cancelSignal (step rd ?s e) = cancelSignal ?s"
    if "e = VideoError err \<or> e = AudioError err \<and> audio c"
  proof -
    have t: "terminal c e" using that by auto
    have "e = VideoError err \<or> e = AudioError err" using that by auto
    then show ?thesis using live_terminal(6)[OF l t, where err = err and rd = rd] t by simp
  qed
  have quiet: "streamPromise (run rd (playStream c) (pre @ e # turn @ Microtask # rest)) = Rejected err"
    if h: "e = VideoError err \<or> e = AudioError err \<and> audio c" "err \<noteq> Undefined"
      "\<forall>a. Abort a \<notin> set turn"
  proof -
    note k = er[OF h(1)]
    have "signal_reason (step rd ?s e) = Undefined" using k l by (simp add: signal_reason_def live_def)
    then have "signal_reason (run rd (step rd ?s e) turn) = Undefined"
      using reason_unchanged[OF h(3), of rd "step rd ?s e"] by simp
    then show ?thesis using outcome[of e] k h(2) by (simp add: neq_undefined)
  qed
  have raced: "streamPromise (run rd (playStream c) (pre @ e # turn @ Microtask # rest)) =
            (if val_strict_neq err (if a = Undefined then AbortError else a) then Rejected err
             else Fulfilled)"
    if h: "e = VideoError err \<or> e = AudioError err \<and> audio c" "signal c \<noteq> None"
      "turn = t1 @ Abort a # t2" "\<forall>b. Abort b \<notin> set t1"
  proof -
    note k = er[OF h(1)]
    obtain sg where sg: "cancelSignal ?s = Some sg" "\<not> aborted sg"
      using l h(2) by (auto simp: live_def signal_aborted_def split: option.splits)
    have "cancelSignal (step rd ?s e) = Some sg" using k sg by simp
    then have "signal_reason (run rd (step rd ?s e) (t1 @ Abort a # t2))
                 = (if a = Undefined then AbortError else a)"
      using sg(2) h(4) by (rule reason_after_abort)
    then show ?thesis using outcome[of e] k h(3) by simp
  qed
  show ?thesis using pending fin ab quiet raced by blast
qed

theorem completion_outcomes_witness:
  "fresh demo
   \<and> \<not> terminal demo (Pts (Fin 5)) \<and> \<not> terminal demo (AudioStreamError (Ref 9))
   \<and> \<not> terminal demo DecoderReady \<and> \<not> terminal demo Microtask
   \<and> signal demo \<noteq> None \<and> Ref 1 \<noteq> Num NaN \<and> Ref 2 \<noteq> Undefined \<and> audio demo
   \<and> streamPromise (run Fin (playStream demo)
         [Pts (Fin 5), AudioStreamError (Ref 9), DecoderReady, Microtask]) = Pending
   \<and> streamPromise (run Fin (playStream demo)
         ([Pts (Fin 5), AudioStreamError (Ref 9), DecoderReady, Microtask]
            @ Finish # [Pts (Fin 6)] @ Microtask # [Abort (Ref 3), Finish])) = Fulfilled
   \<and> promise (run Fin (playStream demo)
         ([Pts (Fin 5), AudioStreamError (Ref 9), DecoderReady, Microtask]
            @ Abort (Ref 1) # [Pts (Fin 6)] @ Microtask # [Abort (Ref 3), Finish])) = Rejected (Ref 1)
   \<and> streamPromise (run Fin (playStream demo)
         ([Pts (Fin 5), AudioStreamError (Ref 9), DecoderReady, Microtask]
            @ Abort (Ref 1) # [Pts (Fin 6)] @ Microtask # [Abort (Ref 3), Finish])) = Fulfilled
   \<and> streamPromise (run Fin (playStream demo)
         ([Pts (Fin 5), AudioStreamError (Ref 9), DecoderReady, Microtask]
            @ VideoError (Ref 2) # [Pts (Fin 6)] @ Microtask # [Abort (Ref 3), Finish]))
       = Rejected (Ref 2)
   \<and> streamPromise (run Fin (playStream demo)
         ([Pts (Fin 5), AudioStreamError (Ref 9), DecoderReady, Microtask]
            @ AudioError (Ref 2) # [Pts (Fin 6)] @ Microtask # [Abort (Ref 3), Finish]))
       = Rejected (Ref 2)
   \<and> streamPromise (run Fin (playStream demo)
         ([Pts (Fin 5), AudioStreamError (Ref 9), DecoderReady, Microtask]
            @ VideoError (Ref 2) # ([Pts (Fin 6)] @ Abort (Ref 2) # []) @ Microtask
               # [Abort (Ref 3), Finish]))
       = Fulfilled
   \<and> streamPromise (run Fin (playStream demo)
         ([Pts (Fin 5), AudioStreamError (Ref 9), DecoderReady, Microtask]
            @ VideoError (Ref 2) # ([Pts (Fin 6)] @ Abort (Ref 4) # []) @ Microtask
               # [Abort (Ref 3), Finish]))
       = Rejected (Ref 2)"
proof -
  have h1: "fresh demo" by (simp add: fresh_def demo_def)
  have h2: "\<forall>x \<in> set [Pts (Fin 5), AudioStreamError (Ref 9), DecoderReady, Microtask].
              \<not> terminal demo x" by simp
  have h3: "Microtask \<notin> set [Pts (Fin 6)]" by simp
  have h4: "Microtask \<notin> set ([Pts (Fin 6)] @ Abort a # [])" for a by simp
  have g: "signal demo \<noteq> None" "audio demo" by (simp_all add: demo_def)
  note quiet_video = completion_outcomes[OF h1 h2 h3, where rd = Fin
      and rest = "[Abort (Ref 3), Finish]" and r = "Ref 1" and e = "VideoError (Ref 2)"
      and err = "Ref 2" and ?t1.0 = "[]" and a = Undefined and ?t2.0 = "[]"]
  note quiet_audio = completion_outcomes[OF h1 h2 h3, where rd = Fin
      and rest = "[Abort (Ref 3), Finish]" and r = "Ref 1" and e = "AudioError (Ref 2)"
      and err = "Ref 2" and ?t1.0 = "[]" and a = Undefined and ?t2.0 = "[]"]
  note raced_same = completion_outcomes[OF h1 h2 h4, where rd = Fin
      and rest = "[Abort (Ref 3), Finish]" and r = "Ref 1" and e = "VideoError (Ref 2)"
      and err = "Ref 2" and ?t1.0 = "[Pts (Fin 6)]" and a = "Ref 2" and ?t2.0 = "[]"]
  note raced_other = completion_outcomes[OF h1 h2 h4, where rd = Fin
      and rest = "[Abort (Ref 3), Finish]" and r = "Ref 1" and e = "VideoError (Ref 2)"
      and err = "Ref 2" and ?t1.0 = "[Pts (Fin 6)]" and a = "Ref 4" and ?t2.0 = "[]"]
  show ?thesis
    using h1 g quiet_video quiet_audio raced_same raced_other
    by (simp del: run_Cons run_Nil)
qed




end
